theory Spec2Isabelle
  imports Main
begin

section \<open>Strings and characters\<close>

text \<open>
  A JavaScript string is modelled as a \<^typ>\<open>string\<close>: a list of 8-bit code units.
  The helpers below are the string primitives the parser calls (\<open>trim\<close>,
  \<open>toLowerCase\<close>, \<open>String(n)\<close>, \<open>parseInt\<close>, the regular expressions), restricted
  to code units below 256.
\<close>

abbreviation semicolon :: char where "semicolon \<equiv> CHR 0x3B"
abbreviation dquote :: char where "dquote \<equiv> CHR 0x22"
abbreviation backslash :: char where "backslash \<equiv> CHR 0x5C"
abbreviation equals :: char where "equals \<equiv> CHR 0x3D"

text \<open>White space as \<open>String.prototype.trim\<close> and the class \<open>\s\<close> see it: tab, line
  feed, vertical tab, form feed, carriage return, space and no-break space.\<close>

definition isSpace :: "char \<Rightarrow> bool" where
  "isSpace c \<longleftrightarrow> c \<in> {CHR 0x09, CHR 0x0A, CHR 0x0B, CHR 0x0C, CHR 0x0D, CHR 0x20, CHR 0xA0}"

definition trim :: "string \<Rightarrow> string" where
  "trim s = rev (dropWhile isSpace (rev (dropWhile isSpace s)))"

text \<open>The class \<open>\d\<close>.\<close>

definition isDigit :: "char \<Rightarrow> bool" where
  "isDigit c \<longleftrightarrow> 48 \<le> (of_char c :: nat) \<and> (of_char c :: nat) \<le> 57"

definition toLowerChar :: "char \<Rightarrow> char" where
  "toLowerChar c =
     (let n = (of_char c :: nat) in
      if (65 \<le> n \<and> n \<le> 90) \<or> (192 \<le> n \<and> n \<le> 222 \<and> n \<noteq> 215)
      then char_of (n + 32) else c)"

definition toLowerCase :: "string \<Rightarrow> string" where
  "toLowerCase s = map toLowerChar s"

text \<open>\<open>KEY_PATTERN = /^[a-z0-9_.]+$/\<close>\<close>

definition keyChar :: "char \<Rightarrow> bool" where
  "keyChar c \<longleftrightarrow>
     (97 \<le> (of_char c :: nat) \<and> (of_char c :: nat) \<le> 122) \<or> isDigit c
     \<or> c = CHR ''_'' \<or> c = CHR ''.''"

definition KEY_PATTERN :: "string \<Rightarrow> bool" where
  "KEY_PATTERN s \<longleftrightarrow> s \<noteq> [] \<and> list_all keyChar s"

text \<open>\<open>String(n)\<close> for a non-negative integer below \<open>10^21\<close>, which is written with
  all its digits.\<close>

fun showNat :: "nat \<Rightarrow> string" where
  "showNat n =
     (if n < 10 then [char_of (48 + n)]
      else showNat (n div 10) @ [char_of (48 + n mod 10)])"

declare showNat.simps [simp del]

text \<open>\<open>parseInt(ds, 10)\<close> on a run of decimal digits: the integer they denote, which
  is the number the code holds as long as it is at most \<open>2^53\<close> (above, the code
  holds the nearest floating-point number).\<close>

definition parseInt :: "string \<Rightarrow> nat" where
  "parseInt ds = foldl (\<lambda>n c. 10 * n + ((of_char c :: nat) - 48)) 0 ds"

section \<open>Data model\<close>

record XMSRawEntry =
  name :: string
  "value" :: "string option"

text \<open>
  \<open>XMSValue\<close>. A number is kept as the text it was read from; the conversion to a
  floating-point value is outside the model. An object is the list of its own
  properties in the order of their creation. What an object inherits from
  \<open>Object.prototype\<close> (\<open>constructor\<close>, \<open>__proto__\<close>) is not part of the value; it is
  the matter of the section on the prototype chain below.
\<close>

datatype XMSValue =
    VNull
  | VBool bool
  | VNum string
  | VStr string
  | VObj "(string \<times> XMSValue) list"
  | VArr "XMSValue list"

type_synonym XMSNode = "(string \<times> XMSValue) list"

record InternalState =
  state_warnings :: "string list"
  state_errors :: "string list"

text \<open>
  \<open>XMSParseOptions\<close>: \<open>None\<close> is an option the caller did not give. The callbacks
  \<open>onWarning\<close> and \<open>transformBareToken\<close> and the option \<open>maxIndexedArraySize\<close> are left
  out: the last two are never read by the code, and the first only observes (a
  callback that raises an exception is not modelled).
\<close>

record XMSParseOptions =
  coerceBooleans :: "bool option"
  coerceNumbers :: "bool option"
  enforceLimits :: "bool option"
  maxNestingDepth :: "int option"
  createFlatKeys :: "bool option"
  createNestedKeys :: "bool option"
  keepInvalidKeys :: "bool option"
  reparseOnFallback :: "bool option"
  customBooleanLiterals :: "(string \<times> bool) list option"
  "defer" :: "bool option"
  overwriteScalarsForNested :: "bool option"
  numberPredicate :: "(string \<Rightarrow> bool) option"

definition noOptions :: XMSParseOptions where
  "noOptions = \<lparr> coerceBooleans = None, coerceNumbers = None, enforceLimits = None,
     maxNestingDepth = None, createFlatKeys = None, createNestedKeys = None,
     keepInvalidKeys = None, reparseOnFallback = None, customBooleanLiterals = None,
     defer = None, overwriteScalarsForNested = None, numberPredicate = None \<rparr>"

definition DEFAULT_OPTIONS :: XMSParseOptions where
  "DEFAULT_OPTIONS = noOptions \<lparr> coerceBooleans := Some True, coerceNumbers := Some False,
     enforceLimits := Some True, maxNestingDepth := Some 5, createFlatKeys := Some False,
     createNestedKeys := Some True, keepInvalidKeys := Some True,
     reparseOnFallback := Some True \<rparr>"

text \<open>The nullish coalescing operator \<open>a ?? b\<close>.\<close>

definition orElse :: "'a option \<Rightarrow> 'a \<Rightarrow> 'a" where
  "orElse a b = (case a of Some x \<Rightarrow> x | None \<Rightarrow> b)"

definition orOpt :: "'a option \<Rightarrow> 'a option \<Rightarrow> 'a option" where
  "orOpt a b = (case a of Some x \<Rightarrow> Some x | None \<Rightarrow> b)"

text \<open>The object spread \<open>{ ...d, ...opts }\<close>.\<close>

definition spread :: "XMSParseOptions \<Rightarrow> XMSParseOptions \<Rightarrow> XMSParseOptions" where
  "spread d opts = \<lparr>
     coerceBooleans = orOpt (coerceBooleans opts) (coerceBooleans d),
     coerceNumbers = orOpt (coerceNumbers opts) (coerceNumbers d),
     enforceLimits = orOpt (enforceLimits opts) (enforceLimits d),
     maxNestingDepth = orOpt (maxNestingDepth opts) (maxNestingDepth d),
     createFlatKeys = orOpt (createFlatKeys opts) (createFlatKeys d),
     createNestedKeys = orOpt (createNestedKeys opts) (createNestedKeys d),
     keepInvalidKeys = orOpt (keepInvalidKeys opts) (keepInvalidKeys d),
     reparseOnFallback = orOpt (reparseOnFallback opts) (reparseOnFallback d),
     customBooleanLiterals = orOpt (customBooleanLiterals opts) (customBooleanLiterals d),
     defer = orOpt (defer opts) (defer d),
     overwriteScalarsForNested =
       orOpt (overwriteScalarsForNested opts) (overwriteScalarsForNested d),
     numberPredicate = orOpt (numberPredicate opts) (numberPredicate d) \<rparr>"

record XMSDoc =
  version :: nat
  isFallback :: bool
  entries :: "XMSRawEntry list"
  data :: XMSNode
  warnings :: "string list"
  errors :: "string list"
  input :: string
  opts :: XMSParseOptions

text \<open>What the code throws: \<open>new Error("Malformed quotes")\<close> in the strict tokenizer,
  a \<open>TypeError\<close> with its message elsewhere.\<close>

datatype error = MalformedQuotes | TypeError string

section \<open>The legacy tokenizer: \<open>parseCommonMeta\<close>\<close>

text \<open>The first loop: split at every \<open>;\<close>, keeping the non-empty pieces.\<close>

fun splitTokens :: "string \<Rightarrow> string \<Rightarrow> string list" where
  "splitTokens cur [] = (if cur \<noteq> [] then [cur] else [])"
| "splitTokens cur (ch # rest) =
     (if ch = semicolon
      then (if cur \<noteq> [] then cur # splitTokens [] rest else splitTokens cur rest)
      else splitTokens (cur @ [ch]) rest)"

text \<open>\<open>raw.indexOf("=")\<close>; \<open>None\<close> is \<open>-1\<close>.\<close>

fun indexOf :: "char \<Rightarrow> string \<Rightarrow> nat option" where
  "indexOf c [] = None"
| "indexOf c (x # xs) =
     (if x = c then Some 0 else map_option Suc (indexOf c xs))"

definition invalidKeyFallbackWarning :: "string \<Rightarrow> string" where
  "invalidKeyFallbackWarning key =
     ''Invalid key pattern for '' @ [dquote] @ key @ [dquote] @ '' (kept in fallback).''"

text \<open>The body of the second loop, for one token: \<open>None\<close> is \<open>continue\<close>.\<close>

definition parseCommonMeta_token ::
  "XMSParseOptions \<Rightarrow> string \<Rightarrow> InternalState \<Rightarrow> XMSRawEntry option \<times> InternalState" where
  "parseCommonMeta_token os text st =
     (let raw = trim text in
      if raw = [] then (None, st)
      else
        (let (key, val) =
               (case indexOf equals raw of
                  None \<Rightarrow> (toLowerCase raw, Some [])
                | Some eq \<Rightarrow>
                    (toLowerCase (trim (take eq raw)),
                     (let right = trim (drop (eq + 1) raw) in
                      if right = [] then None else Some right)))
         in
         if \<not> KEY_PATTERN key then
           (if \<not> orElse (keepInvalidKeys os) True then (None, st)
            else (Some \<lparr>name = key, value = val\<rparr>,
                  st\<lparr>state_warnings := state_warnings st @ [invalidKeyFallbackWarning key]\<rparr>))
         else (Some \<lparr>name = key, value = val\<rparr>, st)))"

fun parseCommonMeta_loop ::
  "XMSParseOptions \<Rightarrow> string list \<Rightarrow> XMSRawEntry list \<Rightarrow> InternalState
     \<Rightarrow> XMSRawEntry list \<times> InternalState" where
  "parseCommonMeta_loop os [] out st = (out, st)"
| "parseCommonMeta_loop os (tk # toks) out st =
     (case parseCommonMeta_token os tk st of
        (None, st') \<Rightarrow> parseCommonMeta_loop os toks out st'
      | (Some e, st') \<Rightarrow> parseCommonMeta_loop os toks (out @ [e]) st')"

definition parseCommonMeta ::
  "XMSParseOptions \<Rightarrow> string \<Rightarrow> InternalState \<Rightarrow> XMSRawEntry list \<times> InternalState" where
  "parseCommonMeta os inp st = parseCommonMeta_loop os (splitTokens [] inp) [] st"

section \<open>The strict tokenizer: \<open>parseXMSCore\<close>\<close>

text \<open>
  The inner \<open>for\<close> loop that looks for the end of a token. It starts with
  \<open>inQuote = esc = false\<close> and returns the characters it went over (the slice from
  \<open>start\<close> to \<open>end\<close>), the input from \<open>end\<close> on, and the final \<open>inQuote\<close>.
\<close>

fun scanToken :: "bool \<Rightarrow> bool \<Rightarrow> string \<Rightarrow> string \<times> string \<times> bool" where
  "scanToken inQuote esc [] = ([], [], inQuote)"
| "scanToken inQuote esc (ch # rest) =
     (if esc then
        (case scanToken inQuote False rest of (tok, r, q) \<Rightarrow> (ch # tok, r, q))
      else if ch = backslash then
        (case scanToken inQuote True rest of (tok, r, q) \<Rightarrow> (ch # tok, r, q))
      else if ch = dquote then
        (case scanToken (\<not> inQuote) False rest of (tok, r, q) \<Rightarrow> (ch # tok, r, q))
      else if ch = semicolon \<and> \<not> inQuote then ([], ch # rest, inQuote)
      else
        (case scanToken inQuote False rest of (tok, r, q) \<Rightarrow> (ch # tok, r, q)))"

text \<open>The loop that finds \<open>eqIndex\<close>, started with \<open>q = e = false\<close> and \<open>k = 0\<close>;
  \<open>None\<close> is \<open>-1\<close>.\<close>

fun findEq :: "bool \<Rightarrow> bool \<Rightarrow> nat \<Rightarrow> string \<Rightarrow> nat option" where
  "findEq q e k [] = None"
| "findEq q e k (c # rest) =
     (if e then findEq q False (k + 1) rest
      else if c = backslash then findEq q True (k + 1) rest
      else if c = dquote then findEq (\<not> q) False (k + 1) rest
      else if c = equals \<and> \<not> q then Some k
      else findEq q False (k + 1) rest)"

text \<open>The loop that removes the escapes of a quoted value; it returns \<open>outStr\<close> and the
  final \<open>esc2\<close>.\<close>

fun unescape :: "bool \<Rightarrow> string \<Rightarrow> string \<Rightarrow> string \<times> bool" where
  "unescape esc2 outStr [] = (outStr, esc2)"
| "unescape esc2 outStr (c # rest) =
     (if esc2 then unescape False (outStr @ [c]) rest
      else if c = backslash then unescape True outStr rest
      else unescape False (outStr @ [c]) rest)"

definition invalidKeyWarning :: "string \<Rightarrow> string" where
  "invalidKeyWarning originalKey =
     ''Invalid key pattern for '' @ [dquote] @ originalKey @ [dquote] @ '' (accepted).''"

text \<open>The value of a token: \<open>Inl\<close> is the message pushed on \<open>state.errors\<close> before the
  throw.\<close>

definition finalValue :: "string option \<Rightarrow> string + string option" where
  "finalValue valuePart =
     (case valuePart of
        None \<Rightarrow> Inr None
      | Some vp \<Rightarrow>
          if take 1 vp = [dquote] then
            (if length vp < 2 \<or> last vp \<noteq> dquote then Inl ''Malformed quoted value.''
             else
               (case unescape False [] (butlast (tl vp)) of
                  (outStr, esc2) \<Rightarrow>
                    if esc2 then Inl ''Dangling backslash.'' else Inr (Some outStr)))
          else Inr (Some vp))"

text \<open>The second half of the body of the outer loop, for one non-empty trimmed token:
  \<open>Inr None\<close> is the \<open>continue\<close> of a dropped key.\<close>

definition parseXMSCore_token ::
  "XMSParseOptions \<Rightarrow> string \<Rightarrow> InternalState
     \<Rightarrow> (error + XMSRawEntry option) \<times> InternalState" where
  "parseXMSCore_token os token st =
     (let (key0, valuePart) =
            (case findEq False False 0 token of
               None \<Rightarrow> (token, None)
             | Some eqIndex \<Rightarrow>
                 (trim (take eqIndex token),
                  (let vp = trim (drop (eqIndex + 1) token) in
                   if vp = [] then None else Some vp)));
          originalKey = key0;
          key = toLowerCase key0
      in
      case finalValue valuePart of
        Inl msg \<Rightarrow> (Inl MalformedQuotes, st\<lparr>state_errors := state_errors st @ [msg]\<rparr>)
      | Inr fv \<Rightarrow>
          if \<not> KEY_PATTERN key then
            (if \<not> orElse (keepInvalidKeys os) True then (Inr None, st)
             else (Inr (Some \<lparr>name = key, value = fv\<rparr>),
                   st\<lparr>state_warnings := state_warnings st @ [invalidKeyWarning originalKey]\<rparr>))
          else (Inr (Some \<lparr>name = key, value = fv\<rparr>), st))"

text \<open>\<open>if (i < len && body[i] === ";") i++\<close>\<close>

fun skipSemicolon :: "string \<Rightarrow> string" where
  "skipSemicolon [] = []"
| "skipSemicolon (c # rest) = (if c = semicolon then rest else c # rest)"

lemma scanToken_rest_length:
  "scanToken q e s = (tok, r, q') \<Longrightarrow> length r \<le> length s"
  by (induction q e s arbitrary: tok r q' rule: scanToken.induct)
     (auto split: if_splits prod.splits)

lemma scanToken_progress:
  assumes "s \<noteq> []" "hd s \<noteq> semicolon" "scanToken False False s = (tok, r, q)"
  shows "length r < length s"
proof -
  obtain c cs where s: "s = c # cs" using assms(1) by (cases s) auto
  with assms(2) have "c \<noteq> semicolon" by simp
  with assms(3) s obtain tok' q1 e1 where "scanToken q1 e1 cs = (tok', r, q)"
    by (auto split: if_splits prod.splits)
  then have "length r \<le> length cs" by (rule scanToken_rest_length)
  with s show ?thesis by simp
qed

lemma skipSemicolon_length: "length (skipSemicolon s) \<le> length s"
  by (cases s) auto

text \<open>
  One iteration of the outer \<open>while\<close> loop once the leading \<open>;\<close> are skipped: the
  scan for the end of the token, the check for an open quote, the token itself. It
  returns the input left after the iteration and the entries pushed (none or one).
\<close>

definition parseXMSCore_step ::
  "XMSParseOptions \<Rightarrow> string \<Rightarrow> InternalState
     \<Rightarrow> (error + string \<times> XMSRawEntry list) \<times> InternalState" where
  "parseXMSCore_step os body1 st =
     (case scanToken False False body1 of
        (tok, rest, inQuote) \<Rightarrow>
          if inQuote then
            (Inl MalformedQuotes,
             st\<lparr>state_errors := state_errors st @ [''Unterminated quote; fallback.'']\<rparr>)
          else
            (let token = trim tok in
             if token = [] then (Inr (skipSemicolon rest, []), st)
             else
               (case parseXMSCore_token os token st of
                  (Inl err, st') \<Rightarrow> (Inl err, st')
                | (Inr None, st') \<Rightarrow> (Inr (skipSemicolon rest, []), st')
                | (Inr (Some en), st') \<Rightarrow> (Inr (skipSemicolon rest, [en]), st'))))"

lemma parseXMSCore_step_decreases:
  assumes "body1 \<noteq> []" "hd body1 \<noteq> semicolon"
    and "parseXMSCore_step os body1 st = (Inr (rest, es), st')"
  shows "length rest < length body1"
proof -
  obtain tok r q where sc: "scanToken False False body1 = (tok, r, q)"
    by (cases "scanToken False False body1") auto
  have "length r < length body1" by (rule scanToken_progress [OF assms(1,2) sc])
  moreover have "rest = skipSemicolon r"
    using assms(3) sc
    by (auto simp: parseXMSCore_step_def Let_def split: if_splits prod.splits sum.splits option.splits)
  moreover have "length (skipSemicolon r) \<le> length r" by (rule skipSemicolon_length)
  ultimately show ?thesis by simp
qed

text \<open>The outer \<open>while (i < len)\<close> loop; \<open>out\<close> is the array built so far.\<close>

function parseXMSCore_loop ::
  "XMSParseOptions \<Rightarrow> string \<Rightarrow> XMSRawEntry list \<Rightarrow> InternalState
     \<Rightarrow> (error + XMSRawEntry list) \<times> InternalState" where
  "parseXMSCore_loop os body out st =
     (if dropWhile (\<lambda>c. c = semicolon) body = [] then (Inr out, st)
      else
        (case parseXMSCore_step os (dropWhile (\<lambda>c. c = semicolon) body) st of
           (Inl err, st') \<Rightarrow> (Inl err, st')
         | (Inr (rest, es), st') \<Rightarrow> parseXMSCore_loop os rest (out @ es) st'))"
  by pat_completeness auto

termination parseXMSCore_loop
proof (relation "measure (\<lambda>(os, body, out, st). length body)", goal_cases)
  case 1
  show ?case by simp
next
  case (2 os body out st r st' x rest es)
  have "hd (dropWhile (\<lambda>c. c = semicolon) body) \<noteq> semicolon"
    using hd_dropWhile [of "\<lambda>c. c = semicolon" body] 2(1) by simp
  then have "length rest < length (dropWhile (\<lambda>c. c = semicolon) body)"
    using parseXMSCore_step_decreases [OF 2(1), of os st rest es st'] 2 by simp
  moreover have "length (dropWhile (\<lambda>c. c = semicolon) body) \<le> length body"
    by (rule length_dropWhile_le)
  ultimately show ?case by simp
qed

declare parseXMSCore_loop.simps [simp del]

definition parseXMSCore ::
  "XMSParseOptions \<Rightarrow> string \<Rightarrow> InternalState
     \<Rightarrow> (error + XMSRawEntry list) \<times> InternalState" where
  "parseXMSCore os body st = parseXMSCore_loop os body [] st"

section \<open>Limit enforcement and coercion\<close>

definition truncatedWarning :: "string \<Rightarrow> nat \<Rightarrow> string" where
  "truncatedWarning key limit =
     ''Value for key '' @ [dquote] @ key @ [dquote] @ '' exceeded limit '' @ showNat limit
       @ '' and was truncated.''"

text \<open>\<open>enforceLength\<close>: the list \<open>w\<close> is what \<open>warn\<close> has collected so far.\<close>

definition enforceLength :: "string \<Rightarrow> string \<Rightarrow> string list \<Rightarrow> string \<times> string list" where
  "enforceLength key v w =
     (let limit =
            (if key = ''username'' then Some (16::nat)
             else if key = ''message'' \<or> key = ''error.message'' \<or> key = ''error''
             then Some 255 else None)
      in case limit of
           Some l \<Rightarrow>
             if length v > l then (take l v, w @ [truncatedWarning key l]) else (v, w)
         | None \<Rightarrow> (v, w))"

text \<open>The pattern \<open>/^-?(?:\d+)(?:\.\d+)?(?:[eE][+-]?\d+)?$/\<close> of \<open>coerceValue\<close>.\<close>

definition optMinus :: "string \<Rightarrow> string" where
  "optMinus s = (case s of c # r \<Rightarrow> if c = CHR ''-'' then r else s | [] \<Rightarrow> s)"

definition optFraction :: "string \<Rightarrow> string" where
  "optFraction s =
     (case s of
        c # r \<Rightarrow>
          if c = CHR ''.'' \<and> takeWhile isDigit r \<noteq> [] then dropWhile isDigit r else s
      | [] \<Rightarrow> s)"

definition optSign :: "string \<Rightarrow> string" where
  "optSign s =
     (case s of c # r \<Rightarrow> if c = CHR ''+'' \<or> c = CHR ''-'' then r else s | [] \<Rightarrow> s)"

definition optExponent :: "string \<Rightarrow> string" where
  "optExponent s =
     (case s of
        c # r \<Rightarrow>
          if (c = CHR ''e'' \<or> c = CHR ''E'') \<and> takeWhile isDigit (optSign r) \<noteq> []
          then dropWhile isDigit (optSign r) else s
      | [] \<Rightarrow> s)"

definition numberPattern :: "string \<Rightarrow> bool" where
  "numberPattern raw \<longleftrightarrow>
     takeWhile isDigit (optMinus raw) \<noteq> []
     \<and> optExponent (optFraction (dropWhile isDigit (optMinus raw))) = []"

text \<open>The \<open>for ... in\<close> loop over \<open>customBooleanLiterals\<close>.\<close>

fun customLiteral :: "(string \<times> bool) list \<Rightarrow> string \<Rightarrow> bool option" where
  "customLiteral [] lower = None"
| "customLiteral ((lit, b) # lits) lower =
     (if toLowerCase lit = lower then Some (b = True) else customLiteral lits lower)"

definition coerceBoolean :: "XMSParseOptions \<Rightarrow> string \<Rightarrow> bool option" where
  "coerceBoolean os lower =
     (if lower = ''true'' then Some True
      else if lower = ''false'' then Some False
      else (case customBooleanLiterals os of
              Some lits \<Rightarrow> customLiteral lits lower
            | None \<Rightarrow> None))"

definition coerceValue :: "XMSParseOptions \<Rightarrow> string option \<Rightarrow> XMSValue" where
  "coerceValue os raw0 =
     (case raw0 of
        None \<Rightarrow> VNull
      | Some raw \<Rightarrow>
          (let lower = toLowerCase raw in
           case (if orElse (coerceBooleans os) True then coerceBoolean os lower else None) of
             Some b \<Rightarrow> VBool b
           | None \<Rightarrow>
               if orElse (coerceNumbers os) False \<and> numberPattern raw
                  \<and> (case numberPredicate os of None \<Rightarrow> True | Some p \<Rightarrow> p raw)
               then VNum raw
               else VStr raw))"

section \<open>Nested assignment\<close>

text \<open>
  \<open>assignNested\<close> on the value tree, that is on own properties: \<open>cur[seg]\<close> is read
  and written as it is for a name that \<open>cur\<close> does not inherit. The statements below
  that depend on it are about keys with no inherited name among their segments
  (\<open>inheritedName\<close>, in the section on the prototype chain).
\<close>

text \<open>\<open>cur[seg] = v\<close> on an object: an existing property keeps its place.\<close>

fun setProp :: "XMSNode \<Rightarrow> string \<Rightarrow> XMSValue \<Rightarrow> XMSNode" where
  "setProp [] k v = [(k, v)]"
| "setProp ((k', v') # ps) k v =
     (if k' = k then (k, v) # ps else (k', v') # setProp ps k v)"

text \<open>\<open>cur[seg]\<close>; \<open>None\<close> is \<open>undefined\<close>.\<close>

definition getProp :: "XMSNode \<Rightarrow> string \<Rightarrow> XMSValue option" where
  "getProp cur k = map_of cur k"

text \<open>\<open>key.split(".")\<close>\<close>

fun splitDot :: "string \<Rightarrow> string \<Rightarrow> string list" where
  "splitDot cur [] = [cur]"
| "splitDot cur (c # rest) =
     (if c = CHR ''.'' then cur # splitDot [] rest else splitDot (cur @ [c]) rest)"

definition showInt :: "int \<Rightarrow> string" where
  "showInt i = (if i < 0 then CHR ''-'' # showNat (nat (- i)) else showNat (nat i))"

definition depthWarning :: "string \<Rightarrow> int \<Rightarrow> string" where
  "depthWarning key maxDepth =
     ''Key '' @ [dquote] @ key @ [dquote] @ '' exceeds max nesting depth ('' @ showInt maxDepth
       @ ''); nested object not created.''"

definition skipWarning :: "string \<Rightarrow> string \<Rightarrow> string" where
  "skipWarning key seg =
     ''Skipping nested creation for '' @ [dquote] @ key @ [dquote]
       @ '' due to existing non-object at segment '' @ [dquote] @ seg @ [dquote] @ ''.''"

text \<open>
  The \<open>for\<close> loop of \<open>assignNested\<close> over the segments, from the object \<open>cur\<close>: it
  returns \<open>cur\<close> as the loop leaves it and the warnings it has emitted.
\<close>

fun assignSegs ::
  "bool \<Rightarrow> string \<Rightarrow> XMSNode \<Rightarrow> string list \<Rightarrow> XMSValue \<Rightarrow> XMSNode \<times> string list" where
  "assignSegs ow key cur [] v = (cur, [])"
| "assignSegs ow key cur [seg] v = (setProp cur seg v, [])"
| "assignSegs ow key cur (seg # rest) v =
     (case getProp cur seg of
        Some (VObj ob) \<Rightarrow>
          (case assignSegs ow key ob rest v of (ob', w) \<Rightarrow> (setProp cur seg (VObj ob'), w))
      | None \<Rightarrow>
          (case assignSegs ow key [] rest v of (ob', w) \<Rightarrow> (setProp cur seg (VObj ob'), w))
      | Some _ \<Rightarrow>
          if ow then
            (case assignSegs ow key [] rest v of (ob', w) \<Rightarrow> (setProp cur seg (VObj ob'), w))
          else (cur, [skipWarning key seg]))"

definition assignNested ::
  "XMSParseOptions \<Rightarrow> XMSNode \<Rightarrow> string \<Rightarrow> XMSValue \<Rightarrow> int \<Rightarrow> bool \<Rightarrow> bool \<Rightarrow> string list
     \<Rightarrow> XMSNode \<times> string list" where
  "assignNested os root key v cfg_maxNestingDepth cfg_createFlatKeys cfg_createNestedKeys w =
     (let root1 = (if cfg_createFlatKeys then setProp root key v else root) in
      if \<not> cfg_createNestedKeys then (root1, w)
      else
        (let segs = splitDot [] key in
         if list_ex (\<lambda>s. length s = 0) segs then (root1, w)
         else if int (length segs) > cfg_maxNestingDepth then
           (root1, w @ [depthWarning key cfg_maxNestingDepth])
         else
           (case assignSegs (orElse (overwriteScalarsForNested os) False) key root1 segs v of
              (root2, w') \<Rightarrow> (root2, w @ w'))))"

section \<open>Ingestion\<close>

text \<open>One round of the loop of \<open>ingest\<close>: the entry as the loop leaves it, the tree and
  the warnings.\<close>

definition ingestEntry ::
  "XMSParseOptions \<Rightarrow> XMSRawEntry \<Rightarrow> XMSNode \<Rightarrow> string list
     \<Rightarrow> XMSRawEntry \<times> XMSNode \<times> string list" where
  "ingestEntry os e dat w =
     (let key = name e;
          (value1, w1) =
            (case value e of
               Some v \<Rightarrow>
                 if orElse (enforceLimits os) True
                 then (case enforceLength key v w of (v', w') \<Rightarrow> (Some v', w'))
                 else (Some v, w)
             | None \<Rightarrow> (None, w));
          e1 = e\<lparr>value := value1\<rparr>;
          coerced = coerceValue os value1
      in case assignNested os dat key coerced
                (orElse (maxNestingDepth os) (orElse (maxNestingDepth DEFAULT_OPTIONS) 5))
                (orElse (createFlatKeys os) True)
                (orElse (createNestedKeys os) True) w1 of
           (dat', w2) \<Rightarrow> (e1, dat', w2))"

fun ingest ::
  "XMSParseOptions \<Rightarrow> XMSRawEntry list \<Rightarrow> XMSNode \<Rightarrow> string list
     \<Rightarrow> XMSRawEntry list \<times> XMSNode \<times> string list" where
  "ingest os [] dat w = ([], dat, w)"
| "ingest os (e # es) dat w =
     (case ingestEntry os e dat w of
        (e1, dat1, w1) \<Rightarrow>
          (case ingest os es dat1 w1 of (es', dat', w') \<Rightarrow> (e1 # es', dat', w')))"

text \<open>The entry as a round of \<open>ingest\<close> leaves it in the log.\<close>

definition limitEntry :: "XMSParseOptions \<Rightarrow> XMSRawEntry \<Rightarrow> XMSRawEntry" where
  "limitEntry os e =
     e\<lparr>value := (case value e of
                    Some v \<Rightarrow> if orElse (enforceLimits os) True
                              then Some (fst (enforceLength (name e) v [])) else Some v
                  | None \<Rightarrow> None)\<rparr>"

section \<open>Objects and the prototype chain\<close>

text \<open>
  The value tree of the two sections above holds the own properties of the objects
  under \<open>data\<close>. In JavaScript \<open>cur[seg]\<close> also finds what \<open>cur\<close> inherits from
  \<open>Object.prototype\<close>: the functions every object has, the accessor \<open>__proto__\<close>, and
  whatever an assignment has stored there. The names below are the properties of
  \<open>Object.prototype\<close> as the language defines it; on a key none of whose segments is
  one of them the walk of \<open>assignNested\<close> stays in the value tree.
\<close>

definition functionNames :: "string list" where
  "functionNames =
     [''constructor'', ''__defineGetter__'', ''__defineSetter__'', ''hasOwnProperty'',
      ''__lookupGetter__'', ''__lookupSetter__'', ''isPrototypeOf'', ''propertyIsEnumerable'',
      ''toString'', ''valueOf'', ''toLocaleString'']"

definition inheritedName :: "string \<Rightarrow> bool" where
  "inheritedName seg \<longleftrightarrow> seg = ''__proto__'' \<or> seg \<in> set functionNames"

text \<open>
  On the other keys the walk can leave the tree, and with \<open>overwriteScalarsForNested\<close>
  it can raise a \<open>TypeError\<close>, which \<open>ingest\<close> does not catch. To tell when, the rest of
  this section follows \<open>ingest\<close> on a store of objects: an object has its own
  properties and either inherits from \<open>Object.prototype\<close> or has the prototype \<open>null\<close>
  (an assignment of \<open>null\<close> to \<open>__proto__\<close> makes it so). A property holds a coerced
  value (\<open>null\<close> or a primitive), a function or a reference to an object. Address \<open>0\<close>
  is \<open>Object.prototype\<close>, address \<open>1\<close> the object \<open>data\<close>.
\<close>

datatype JSValue = Primitive XMSValue | FunctionObject | Reference nat

record JSObject =
  inherits :: bool
  own :: "(string \<times> JSValue) list"

record Store =
  objectAt :: "nat \<Rightarrow> JSObject"
  nextFree :: nat

text \<open>The store when \<open>ingest\<close> starts: \<open>Object.prototype\<close> as the language defines it,
  and \<open>data = {}\<close>.\<close>

definition initialStore :: Store where
  "initialStore =
     \<lparr> objectAt = (\<lambda>a. \<lparr>inherits = True, own = []\<rparr>)
         (0 := \<lparr>inherits = False, own = map (\<lambda>n. (n, FunctionObject)) functionNames\<rparr>),
       nextFree = 2 \<rparr>"

text \<open>
  \<open>cur[seg]\<close> read; \<open>None\<close> is \<open>undefined\<close>. An own property comes first. The accessor
  \<open>__proto__\<close> lives on \<open>Object.prototype\<close>: it gives \<open>null\<close> on \<open>Object.prototype\<close>
  itself, and \<open>Object.prototype\<close> on an object that inherits from it. An object with
  the prototype \<open>null\<close> inherits nothing.
\<close>

definition getProperty :: "Store \<Rightarrow> nat \<Rightarrow> string \<Rightarrow> JSValue option" where
  "getProperty st cur seg =
     (case map_of (own (objectAt st cur)) seg of
        Some x \<Rightarrow> Some x
      | None \<Rightarrow>
          if cur = 0 then (if seg = ''__proto__'' then Some (Primitive VNull) else None)
          else if inherits (objectAt st cur) then
            (if seg = ''__proto__'' then Some (Reference 0)
             else map_of (own (objectAt st 0)) seg)
          else None)"

text \<open>An own property is replaced where it is, or added at the end.\<close>

fun defineOwn :: "(string \<times> JSValue) list \<Rightarrow> string \<Rightarrow> JSValue \<Rightarrow> (string \<times> JSValue) list" where
  "defineOwn [] k x = [(k, x)]"
| "defineOwn ((k', x') # ps) k x =
     (if k' = k then (k, x) # ps else (k', x') # defineOwn ps k x)"

definition putOwn :: "Store \<Rightarrow> nat \<Rightarrow> string \<Rightarrow> JSValue \<Rightarrow> Store" where
  "putOwn st cur seg x =
     st\<lparr>objectAt := (objectAt st)
          (cur := (objectAt st cur)\<lparr>own := defineOwn (own (objectAt st cur)) seg x\<rparr>)\<rparr>"

text \<open>
  \<open>cur[seg] = value\<close> for a coerced value. An own property is replaced. Otherwise
  the name \<open>__proto__\<close> reaches the setter of the accessor, on \<open>Object.prototype\<close> and
  on an object that inherits from it: the setter ignores a primitive; with \<open>null\<close> it
  sets the prototype of the object to \<open>null\<close>, which is what the prototype of
  \<open>Object.prototype\<close> is already. Any other name becomes an own property.
\<close>

definition assignValue :: "Store \<Rightarrow> nat \<Rightarrow> string \<Rightarrow> XMSValue \<Rightarrow> Store" where
  "assignValue st cur seg v =
     (if map_of (own (objectAt st cur)) seg \<noteq> None then putOwn st cur seg (Primitive v)
      else if seg = ''__proto__'' \<and> (cur = 0 \<or> inherits (objectAt st cur)) then
        (if v = VNull \<and> cur \<noteq> 0
         then st\<lparr>objectAt := (objectAt st)(cur := (objectAt st cur)\<lparr>inherits := False\<rparr>)\<rparr>
         else st)
      else putOwn st cur seg (Primitive v))"

text \<open>\<open>cur[seg] = {}\<close> where it defines or replaces an own property, and the address
  of the new object, which \<open>cur = cur[seg]\<close> then reads.\<close>

definition assignObject :: "Store \<Rightarrow> nat \<Rightarrow> string \<Rightarrow> Store \<times> nat" where
  "assignObject st cur seg =
     (putOwn
        \<lparr> objectAt = (objectAt st)(nextFree st := \<lparr>inherits = True, own = []\<rparr>),
          nextFree = nextFree st + 1 \<rparr>
        cur seg (Reference (nextFree st)),
      nextFree st)"

text \<open>The message of the \<open>TypeError\<close> is the engine's: this is the text of
  JavaScriptCore, the engine under the test runner of the repository. No statement
  depends on the text.\<close>

definition immutablePrototypeMessage :: string where
  "immutablePrototypeMessage = ''Cannot set prototype of immutable prototype object''"

text \<open>
  The \<open>for\<close> loop of \<open>assignNested\<close> from the object at \<open>cur\<close>. When \<open>exist\<close> is an
  object the walk steps into it. When it is \<open>undefined\<close>, \<open>cur[seg] = {}\<close> defines an
  own property: the accessor \<open>__proto__\<close> is not in reach, or \<open>exist\<close> would be its
  value. When it is anything else (\<open>null\<close>, a primitive, a function), the walk stops
  by default; with the override \<open>cur[seg] = {}\<close> replaces an own property or hides an
  inherited one by an own one, except for \<open>__proto__\<close> on \<open>Object.prototype\<close>, where
  \<open>exist\<close> is the \<open>null\<close> of the accessor and the setter refuses the new prototype
  with a \<open>TypeError\<close>.
\<close>

fun assignSegs_store ::
  "bool \<Rightarrow> Store \<Rightarrow> nat \<Rightarrow> string list \<Rightarrow> XMSValue \<Rightarrow> error + Store" where
  "assignSegs_store ow st cur [] v = Inr st"
| "assignSegs_store ow st cur [seg] v = Inr (assignValue st cur seg v)"
| "assignSegs_store ow st cur (seg # rest) v =
     (case getProperty st cur seg of
        Some (Reference r) \<Rightarrow> assignSegs_store ow st r rest v
      | None \<Rightarrow>
          (case assignObject st cur seg of (st', r) \<Rightarrow> assignSegs_store ow st' r rest v)
      | Some _ \<Rightarrow>
          if ow then
            (if cur = 0 \<and> seg = ''__proto__''
             then Inl (TypeError immutablePrototypeMessage)
             else (case assignObject st cur seg of
                     (st', r) \<Rightarrow> assignSegs_store ow st' r rest v))
          else Inr st)"

text \<open>\<open>assignNested\<close> on the store, \<open>root\<close> being the object \<open>data\<close> at address \<open>1\<close>.\<close>

definition assignNested_store ::
  "XMSParseOptions \<Rightarrow> Store \<Rightarrow> string \<Rightarrow> XMSValue \<Rightarrow> int \<Rightarrow> bool \<Rightarrow> bool \<Rightarrow> error + Store" where
  "assignNested_store os st key v cfg_maxNestingDepth cfg_createFlatKeys cfg_createNestedKeys =
     (let st1 = (if cfg_createFlatKeys then assignValue st 1 key v else st) in
      if \<not> cfg_createNestedKeys then Inr st1
      else
        (let segs = splitDot [] key in
         if list_ex (\<lambda>s. length s = 0) segs then Inr st1
         else if int (length segs) > cfg_maxNestingDepth then Inr st1
         else assignSegs_store (orElse (overwriteScalarsForNested os) False) st1 1 segs v))"

text \<open>The loop of \<open>ingest\<close> on the store: each entry's value, cut to its limit as
  \<open>limitEntry\<close> has it, is coerced and assigned; the loop ends at the first exception.\<close>

fun ingest_store :: "XMSParseOptions \<Rightarrow> XMSRawEntry list \<Rightarrow> Store \<Rightarrow> error + Store" where
  "ingest_store os [] st = Inr st"
| "ingest_store os (e # es) st =
     (case assignNested_store os st (name e) (coerceValue os (value (limitEntry os e)))
             (orElse (maxNestingDepth os) (orElse (maxNestingDepth DEFAULT_OPTIONS) 5))
             (orElse (createFlatKeys os) True)
             (orElse (createNestedKeys os) True) of
        Inl err \<Rightarrow> Inl err
      | Inr st' \<Rightarrow> ingest_store os es st')"

text \<open>The exception, if any, that \<open>ingest\<close> raises on the entries.\<close>

definition ingestThrows :: "XMSParseOptions \<Rightarrow> XMSRawEntry list \<Rightarrow> error option" where
  "ingestThrows os es =
     (case ingest_store os es initialStore of Inl err \<Rightarrow> Some err | Inr st \<Rightarrow> None)"

section \<open>The dispatcher: \<open>parse\<close>, the constructor, \<open>safeParse\<close>\<close>

text \<open>\<open>/^xms\/(\d+)/.exec(input)\<close>: the digits \<open>m[1]\<close> and the input after \<open>m[0]\<close>.\<close>

definition xmsPrefix :: "string \<Rightarrow> (string \<times> string) option" where
  "xmsPrefix s =
     (if take 4 s = ''xms/'' \<and> takeWhile isDigit (drop 4 s) \<noteq> []
      then Some (takeWhile isDigit (drop 4 s), dropWhile isDigit (drop 4 s))
      else None)"

text \<open>\<open>isProbablyXMS\<close>: \<open>/^xms\/\d+;/.test(input)\<close>\<close>

definition isProbablyXMS :: "string \<Rightarrow> bool" where
  "isProbablyXMS s \<longleftrightarrow>
     take 4 s = ''xms/'' \<and> takeWhile isDigit (drop 4 s) \<noteq> []
     \<and> take 1 (dropWhile isDigit (drop 4 s)) = [semicolon]"

text \<open>
  The method \<open>parse\<close> on a document that holds its input and options. The \<open>try\<close>
  block is the strict or the legacy tokenizer; the \<open>catch\<close> block is the branch
  \<open>Inl\<close> of the strict one (the legacy tokenizer has no \<open>throw\<close>).
\<close>

definition parse :: "XMSDoc \<Rightarrow> XMSDoc" where
  "parse this =
     (let state = \<lparr>state_warnings = [], state_errors = []\<rparr>;
          (version1, xmsCandidate, body) =
            (case xmsPrefix (input this) of
               Some (m1, rest) \<Rightarrow> (parseInt m1, True, rest)
             | None \<Rightarrow> (0, False, input this));
          (isFallback2, version2, entries2, state2) =
            (if xmsCandidate then
               (case parseXMSCore (opts this) body state of
                  (Inr es, st) \<Rightarrow> (False, version1, es, st)
                | (Inl err, st) \<Rightarrow>
                    if orElse (reparseOnFallback (opts this)) True
                    then (case parseCommonMeta (opts this) (input this) st of
                            (es, st') \<Rightarrow> (True, 0, es, st'))
                    else (True, 0, [], st))
             else
               (case parseCommonMeta (opts this) (input this) state of
                  (es, st) \<Rightarrow> (True, version1, es, st)))
      in case ingest (opts this) entries2 [] (state_warnings state2) of
           (entries3, data3, warnings3) \<Rightarrow>
             this\<lparr> version := version2, isFallback := isFallback2, entries := entries3,
                    data := data3,
                    warnings := (if warnings3 \<noteq> [] then warnings3 else []),
                    errors := (if state_errors state2 \<noteq> [] then state_errors state2 else []) \<rparr>)"

text \<open>
  The call of \<open>ingest\<close> stands after the \<open>try\<close> block of \<open>parse\<close>, so an exception of
  \<open>ingest\<close> leaves \<open>parse\<close>; \<open>parse\<close> above is the document when \<open>ingest\<close> returns.
  \<open>tokenize\<close> is the entry list that \<open>parse\<close> hands to \<open>ingest\<close>, and \<open>parseThrows\<close> the
  exception, if any, that leaves \<open>parse\<close>.
\<close>

definition tokenize :: "XMSDoc \<Rightarrow> XMSRawEntry list" where
  "tokenize this =
     (let state = \<lparr>state_warnings = [], state_errors = []\<rparr> in
      case xmsPrefix (input this) of
        Some (m1, rest) \<Rightarrow>
          (case parseXMSCore (opts this) rest state of
             (Inr es, st) \<Rightarrow> es
           | (Inl err, st) \<Rightarrow>
               if orElse (reparseOnFallback (opts this)) True
               then fst (parseCommonMeta (opts this) (input this) st)
               else [])
      | None \<Rightarrow> fst (parseCommonMeta (opts this) (input this) state))"

definition parseThrows :: "XMSDoc \<Rightarrow> error option" where
  "parseThrows this = ingestThrows (opts this) (tokenize this)"

text \<open>What a caller may pass where a string is expected.\<close>

datatype JSInput = JString string | JNotAString

text \<open>The field initialisers of the class, with the two fields the constructor sets.\<close>

definition initialDoc :: "string \<Rightarrow> XMSParseOptions \<Rightarrow> XMSDoc" where
  "initialDoc s os =
     \<lparr> version = 0, isFallback = False, entries = [], data = [], warnings = [], errors = [],
       input = s, opts = os \<rparr>"

text \<open>The constructor: the type check, the fields, the parse unless deferred. An
  exception is the result \<open>Inl\<close>: the \<open>TypeError\<close> of the type check, or the one
  that leaves \<open>parse\<close>.\<close>

definition XMSDoc_new :: "JSInput \<Rightarrow> XMSParseOptions \<Rightarrow> error + XMSDoc" where
  "XMSDoc_new inp options =
     (case inp of
        JNotAString \<Rightarrow> Inl (TypeError ''Input must be a string.'')
      | JString s \<Rightarrow>
          (let this = initialDoc s (spread DEFAULT_OPTIONS options)
           in if \<not> orElse (defer options) False
              then (case parseThrows this of Some err \<Rightarrow> Inl err | None \<Rightarrow> Inr (parse this))
              else Inr this))"

text \<open>The static \<open>XMSDoc.parse\<close>.\<close>

definition XMSDoc_parse :: "JSInput \<Rightarrow> XMSParseOptions \<Rightarrow> error + XMSDoc" where
  "XMSDoc_parse inp options = XMSDoc_new inp (options\<lparr>defer := Some False\<rparr>)"

fun errorMessage :: "error \<Rightarrow> string" where
  "errorMessage MalformedQuotes = ''Malformed quotes''"
| "errorMessage (TypeError msg) = msg"

text \<open>
  The static \<open>XMSDoc.safeParse\<close>: an exception is the result \<open>Inl\<close>. \<open>catching\<close> is
  its \<open>try\<close> statement, applied to what the constructor call in the \<open>try\<close> block
  does: the \<open>catch\<close> block reads the message of the exception and nothing else.
\<close>

definition catching :: "error + XMSDoc \<Rightarrow> error + XMSDoc" where
  "catching outcome =
     (case outcome of
        Inr doc \<Rightarrow> Inr doc
      | Inl err \<Rightarrow>
          (case XMSDoc_new (JString []) (noOptions\<lparr>defer := Some True\<rparr>) of
             Inl err2 \<Rightarrow> Inl err2
           | Inr doc \<Rightarrow>
               Inr (doc\<lparr> version := 0, isFallback := True,
                         errors := [''Unexpected parser failure: '' @ errorMessage err] \<rparr>)))"

definition safeParse :: "JSInput \<Rightarrow> XMSParseOptions \<Rightarrow> error + XMSDoc" where
  "safeParse inp options = catching (XMSDoc_new inp options)"

section \<open>The other constructions: \<open>XMSDoc.from\<close>\<close>

record XMSParsedLike =
  like_version :: nat
  like_isFallback :: bool
  like_entries :: "XMSRawEntry list"
  like_data :: XMSNode
  like_warnings :: "string list option"
  like_errors :: "string list option"

text \<open>The sources \<open>from\<close> tells apart with \<open>typeof\<close>, \<open>isParsedLike\<close>, \<open>isEntriesArray\<close>
  and \<open>isNode\<close>; \<open>SourceOther\<close> is a value none of them accepts.\<close>

datatype Source =
    SourceString string
  | SourceParsedLike XMSParsedLike
  | SourceEntries "XMSRawEntry list"
  | SourceNode XMSNode
  | SourceOther

text \<open>The options \<open>from\<close> reads besides the parse options.\<close>

record FromOptions =
  from_version :: "nat option"
  from_isFallback :: "bool option"
  preserveWarnings :: "bool option"
  preserveErrors :: "bool option"

text \<open>
  \<open>flattenNodeToEntries\<close>: \<open>walk\<close> on a value, on the properties of an object and on
  the elements of an array from index \<open>i\<close>; \<open>cur\<close> is the path so far. The text of
  a number stands for \<open>String(v)\<close>.
\<close>

definition pushPrim :: "string \<Rightarrow> XMSValue \<Rightarrow> XMSRawEntry" where
  "pushPrim full v =
     \<lparr> name = toLowerCase full,
       value = (case v of
                  VNull \<Rightarrow> None
                | VStr s \<Rightarrow> Some s
                | VNum n \<Rightarrow> Some n
                | VBool b \<Rightarrow> Some (if b then ''true'' else ''false'')
                | _ \<Rightarrow> None) \<rparr>"

definition joinPath :: "string \<Rightarrow> string \<Rightarrow> string" where
  "joinPath cur k = (if cur \<noteq> [] then cur @ ''.'' @ k else k)"

fun walk :: "XMSValue \<Rightarrow> string \<Rightarrow> XMSRawEntry list"
  and walkProps :: "(string \<times> XMSValue) list \<Rightarrow> string \<Rightarrow> XMSRawEntry list"
  and walkItems :: "XMSValue list \<Rightarrow> nat \<Rightarrow> string \<Rightarrow> XMSRawEntry list" where
  "walk (VObj ps) cur = walkProps ps cur"
| "walk (VArr vs) cur = walkItems vs 0 cur"
| "walk VNull cur = [pushPrim cur VNull]"
| "walk (VBool b) cur = [pushPrim cur (VBool b)]"
| "walk (VNum n) cur = [pushPrim cur (VNum n)]"
| "walk (VStr s) cur = [pushPrim cur (VStr s)]"
| "walkProps [] cur = []"
| "walkProps ((k, child) # ps) cur = walk child (joinPath cur k) @ walkProps ps cur"
| "walkItems [] i cur = []"
| "walkItems (c # vs) i cur = walk c (joinPath cur (showNat i)) @ walkItems vs (i + 1) cur"

definition flattenNodeToEntries :: "XMSNode \<Rightarrow> XMSRawEntry list" where
  "flattenNodeToEntries node = walk (VObj node) []"

text \<open>\<open>new XMSDoc("", { ...options, defer: true })\<close>, which cannot throw.\<close>

definition deferredDoc :: "XMSParseOptions \<Rightarrow> XMSDoc" where
  "deferredDoc options = initialDoc [] (spread DEFAULT_OPTIONS (options\<lparr>defer := Some True\<rparr>))"

definition XMSDoc_from :: "Source \<Rightarrow> XMSParseOptions \<Rightarrow> FromOptions \<Rightarrow> error + XMSDoc" where
  "XMSDoc_from source options fo =
     (case source of
        SourceString s \<Rightarrow> XMSDoc_parse (JString s) options
      | SourceParsedLike src \<Rightarrow>
          (let doc = deferredDoc options in
           Inr (doc\<lparr> version := orElse (from_version fo) (like_version src),
                     isFallback := orElse (from_isFallback fo) (like_isFallback src),
                     entries := map (\<lambda>e. \<lparr>name = name e, value = value e\<rparr>) (like_entries src),
                     data := like_data src,
                     warnings :=
                       (case like_warnings src of
                          Some ws \<Rightarrow> if preserveWarnings fo \<noteq> Some False then ws else warnings doc
                        | None \<Rightarrow> warnings doc),
                     errors :=
                       (case like_errors src of
                          Some errs \<Rightarrow> if preserveErrors fo \<noteq> Some False then errs else errors doc
                        | None \<Rightarrow> errors doc) \<rparr>))
      | SourceEntries src \<Rightarrow>
          (let doc = deferredDoc options;
               es = map (\<lambda>e. \<lparr>name = toLowerCase (name e), value = value e\<rparr>) src
           in case ingestThrows (opts doc) es of
                Some err \<Rightarrow> Inl err
              | None \<Rightarrow>
                  (case ingest (opts doc) es (data doc) (warnings doc) of
                     (es', dat, w) \<Rightarrow>
                       Inr (doc\<lparr> version := orElse (from_version fo) 1,
                                 isFallback := orElse (from_isFallback fo) False,
                                 entries := es', data := dat, warnings := w \<rparr>)))
      | SourceNode src \<Rightarrow>
          (let doc = deferredDoc options;
               es = flattenNodeToEntries src
           in case ingestThrows (opts doc) es of
                Some err \<Rightarrow> Inl err
              | None \<Rightarrow>
                  (case ingest (opts doc) es (data doc) (warnings doc) of
                     (es', dat, w) \<Rightarrow>
                       Inr (doc\<lparr> version := orElse (from_version fo) 1,
                                 isFallback := orElse (from_isFallback fo) False,
                                 entries := es', data := dat, warnings := w \<rparr>)))
      | SourceOther \<Rightarrow> Inl (TypeError ''Unsupported source type for XMSDoc.from()''))"

section \<open>The serializer: \<open>toXMS\<close>\<close>

text \<open>\<open>/[\s;="\\]/.test(value)\<close>\<close>

definition needsQuotes :: "string \<Rightarrow> bool" where
  "needsQuotes v \<longleftrightarrow>
     list_ex (\<lambda>c. isSpace c \<or> c = semicolon \<or> c = equals \<or> c = dquote \<or> c = backslash) v"

text \<open>The loop that fills \<open>buf\<close> after the opening quote.\<close>

fun escapeChars :: "string \<Rightarrow> string" where
  "escapeChars [] = []"
| "escapeChars (ch # rest) =
     (if ch = dquote \<or> ch = backslash then backslash # ch # escapeChars rest
      else ch # escapeChars rest)"

text \<open>The token pushed for one entry; \<open>None\<close> is \<open>continue\<close>.\<close>

definition toXMS_token :: "XMSRawEntry \<Rightarrow> string option" where
  "toXMS_token e =
     (let key = name e in
      if \<not> KEY_PATTERN key then None
      else
        (case value e of
           None \<Rightarrow> Some key
         | Some v \<Rightarrow>
             if v = [] then Some (key @ [equals])
             else if needsQuotes v
             then Some (key @ [equals] @ ([dquote] @ escapeChars v @ [dquote]))
             else Some (key @ [equals] @ v)))"

text \<open>\<open>tokens.join(";")\<close>\<close>

fun joinSemicolon :: "string list \<Rightarrow> string" where
  "joinSemicolon [] = []"
| "joinSemicolon [t] = t"
| "joinSemicolon (t # ts) = t @ semicolon # joinSemicolon ts"

definition toXMS :: "XMSDoc \<Rightarrow> string" where
  "toXMS this =
     (let tokens = List.map_filter toXMS_token (entries this) in
      if version this = 0 then joinSemicolon tokens
      else if tokens \<noteq> [] then ''xms/'' @ showNat (version this) @ [semicolon] @ joinSemicolon tokens
      else ''xms/'' @ showNat (version this) @ [semicolon])"

section \<open>Notions used in the statements\<close>

text \<open>The document \<open>XMSDoc.parse(s, options)\<close> returns for a string \<open>s\<close>.\<close>

definition parseString :: "string \<Rightarrow> XMSParseOptions \<Rightarrow> XMSDoc" where
  "parseString s options =
     parse (initialDoc s (spread DEFAULT_OPTIONS (options\<lparr>defer := Some False\<rparr>)))"

text \<open>The messages the strict tokenizer pushes on \<open>state.errors\<close> before it throws.\<close>

definition malformedMessages :: "string set" where
  "malformedMessages =
     {''Unterminated quote; fallback.'', ''Malformed quoted value.'', ''Dangling backslash.''}"

text \<open>The pair \<open>(inQuote, esc)\<close> of the scanning loop after it has gone over the given
  characters from the given pair, with no \<open>break\<close>.\<close>

fun scanState :: "bool \<Rightarrow> bool \<Rightarrow> string \<Rightarrow> bool \<times> bool" where
  "scanState inQuote esc [] = (inQuote, esc)"
| "scanState inQuote esc (ch # rest) =
     (if esc then scanState inQuote False rest
      else if ch = backslash then scanState inQuote True rest
      else if ch = dquote then scanState (\<not> inQuote) False rest
      else scanState inQuote False rest)"

text \<open>The value found by following the segments through objects, and the first
  intermediate segment, if any, that holds a value other than an object.\<close>

fun getPath :: "XMSNode \<Rightarrow> string list \<Rightarrow> XMSValue option" where
  "getPath cur [] = None"
| "getPath cur [seg] = getProp cur seg"
| "getPath cur (seg # rest) =
     (case getProp cur seg of Some (VObj ob) \<Rightarrow> getPath ob rest | _ \<Rightarrow> None)"

fun conflictSeg :: "XMSNode \<Rightarrow> string list \<Rightarrow> string option" where
  "conflictSeg cur [] = None"
| "conflictSeg cur [seg] = None"
| "conflictSeg cur (seg # rest) =
     (case getProp cur seg of
        Some (VObj ob) \<Rightarrow> conflictSeg ob rest
      | None \<Rightarrow> None
      | Some _ \<Rightarrow> Some seg)"

section \<open>Limit enforcement (C8)\<close>

lemma enforceLength_value_indep:
  "fst (enforceLength key v w) = fst (enforceLength key v [])"
  by (simp add: enforceLength_def Let_def split: option.splits)

lemma ingest_entries:
  "fst (ingest os es dat w) =
     map (\<lambda>e. e\<lparr>value := (case value e of
                            Some v \<Rightarrow> if orElse (enforceLimits os) True
                                      then Some (fst (enforceLength (name e) v [])) else Some v
                          | None \<Rightarrow> None)\<rparr>) es"
proof (induction es arbitrary: dat w)
  case Nil
  show ?case by simp
next
  case (Cons e es)
  obtain e1 dat1 w1 where ie: "ingestEntry os e dat w = (e1, dat1, w1)"
    by (cases "ingestEntry os e dat w") auto
  have e1: "e1 = e\<lparr>value := (case value e of
                            Some v \<Rightarrow> if orElse (enforceLimits os) True
                                      then Some (fst (enforceLength (name e) v [])) else Some v
                          | None \<Rightarrow> None)\<rparr>"
    using ie enforceLength_value_indep [of "name e" _ w, symmetric]
    by (auto simp: ingestEntry_def Let_def split: option.splits prod.splits if_splits)
  obtain es' dat' w' where ig: "ingest os es dat1 w1 = (es', dat', w')"
    by (cases "ingest os es dat1 w1") auto
  have "fst (ingest os (e # es) dat w) = e1 # es'"
    using ie ig by simp
  moreover have "es' = fst (ingest os es dat1 w1)"
    using ig by simp
  ultimately show ?case
    using Cons.IH [of dat1 w1] e1 by simp
qed



section \<open>Bare tokens and empty right-hand sides (C3)\<close>

lemma findEq_no_equals: "equals \<notin> set s \<Longrightarrow> findEq q e k s = None"
  by (induction q e k s rule: findEq.induct) auto


lemma indexOf_None: "c \<notin> set s \<Longrightarrow> indexOf c s = None"
  by (induction s) auto



lemma trim_Nil [simp]: "trim [] = []"
  by (simp add: trim_def)









section \<open>What the tokenizers do to the error list\<close>

lemma parseCommonMeta_token_errors:
  "state_errors (snd (parseCommonMeta_token os text st)) = state_errors st"
  by (simp add: parseCommonMeta_token_def Let_def split: prod.splits option.splits)

lemma parseCommonMeta_loop_errors:
  "state_errors (snd (parseCommonMeta_loop os toks out st)) = state_errors st"
proof (induction toks arbitrary: out st)
  case Nil
  show ?case by simp
next
  case (Cons tk toks)
  obtain r st' where t: "parseCommonMeta_token os tk st = (r, st')"
    by (cases "parseCommonMeta_token os tk st") auto
  then have "state_errors st' = state_errors st"
    using parseCommonMeta_token_errors [of os tk st] by simp
  then show ?case using t Cons.IH [of _ st'] by (cases r) simp_all
qed

lemma parseCommonMeta_errors:
  "state_errors (snd (parseCommonMeta os inp st)) = state_errors st"
  by (simp add: parseCommonMeta_def parseCommonMeta_loop_errors)

lemma finalValue_Inl: "finalValue vp = Inl msg \<Longrightarrow> msg \<in> malformedMessages"
  by (auto simp: finalValue_def malformedMessages_def split: option.splits if_splits prod.splits)

lemma parseXMSCore_token_errors:
  "parseXMSCore_token os token st = (r, st') \<Longrightarrow>
     (case r of
        Inr x \<Rightarrow> state_errors st' = state_errors st
      | Inl err \<Rightarrow> err = MalformedQuotes
          \<and> (\<exists>msg \<in> malformedMessages. state_errors st' = state_errors st @ [msg]))"
  by (auto simp: parseXMSCore_token_def Let_def
        split: prod.splits option.splits sum.splits if_splits dest: finalValue_Inl)

lemma parseXMSCore_step_errors:
  "parseXMSCore_step os body1 st = (r, st') \<Longrightarrow>
     (case r of
        Inr x \<Rightarrow> state_errors st' = state_errors st
      | Inl err \<Rightarrow> err = MalformedQuotes
          \<and> (\<exists>msg \<in> malformedMessages. state_errors st' = state_errors st @ [msg]))"
proof -
  assume a: "parseXMSCore_step os body1 st = (r, st')"
  obtain tok rest q where sc: "scanToken False False body1 = (tok, rest, q)"
    by (cases "scanToken False False body1") auto
  show ?thesis
  proof (cases q)
    case True
    with a sc show ?thesis
      by (auto simp: parseXMSCore_step_def malformedMessages_def)
  next
    case False
    show ?thesis
    proof (cases "trim tok = []")
      case True
      with a sc False show ?thesis by (auto simp: parseXMSCore_step_def)
    next
      case nonempty: False
      obtain r1 st1 where t: "parseXMSCore_token os (trim tok) st = (r1, st1)"
        by (cases "parseXMSCore_token os (trim tok) st") auto
      from parseXMSCore_token_errors [OF t] a sc False nonempty t show ?thesis
        by (auto simp: parseXMSCore_step_def Let_def split: sum.splits option.splits)
    qed
  qed
qed

lemma parseXMSCore_loop_done:
  "dropWhile (\<lambda>c. c = semicolon) body = [] \<Longrightarrow> parseXMSCore_loop os body out st = (Inr out, st)"
  by (subst parseXMSCore_loop.simps) simp

lemma parseXMSCore_loop_throw:
  "dropWhile (\<lambda>c. c = semicolon) body \<noteq> [] \<Longrightarrow>
   parseXMSCore_step os (dropWhile (\<lambda>c. c = semicolon) body) st = (Inl err, st1) \<Longrightarrow>
   parseXMSCore_loop os body out st = (Inl err, st1)"
  by (subst parseXMSCore_loop.simps) simp

lemma parseXMSCore_loop_next:
  "dropWhile (\<lambda>c. c = semicolon) body \<noteq> [] \<Longrightarrow>
   parseXMSCore_step os (dropWhile (\<lambda>c. c = semicolon) body) st = (Inr (rest, es), st1) \<Longrightarrow>
   parseXMSCore_loop os body out st = parseXMSCore_loop os rest (out @ es) st1"
  by (subst parseXMSCore_loop.simps) (simp del: dropWhile_eq_Nil_conv)

lemma parseXMSCore_loop_induct [case_names finished thrown continue]:
  assumes finished: "\<And>os body out st.
      dropWhile (\<lambda>c. c = semicolon) body = [] \<Longrightarrow> Q os body out st"
    and thrown: "\<And>os body out st err st1.
      dropWhile (\<lambda>c. c = semicolon) body \<noteq> [] \<Longrightarrow>
      parseXMSCore_step os (dropWhile (\<lambda>c. c = semicolon) body) st = (Inl err, st1) \<Longrightarrow>
      Q os body out st"
    and continue: "\<And>os body out st rest es st1.
      dropWhile (\<lambda>c. c = semicolon) body \<noteq> [] \<Longrightarrow>
      parseXMSCore_step os (dropWhile (\<lambda>c. c = semicolon) body) st = (Inr (rest, es), st1) \<Longrightarrow>
      Q os rest (out @ es) st1 \<Longrightarrow> Q os body out st"
  shows "Q os body out st"
proof (induction os body out st rule: parseXMSCore_loop.induct)
  case (1 os body out st)
  let ?b = "dropWhile (\<lambda>c. c = semicolon) body"
  show ?case
  proof (cases "?b = []")
    case True
    then show ?thesis by (rule finished)
  next
    case False
    obtain r1 st1 where s: "parseXMSCore_step os ?b st = (r1, st1)"
      by (cases "parseXMSCore_step os ?b st") auto
    show ?thesis
    proof (cases r1)
      case (Inl err)
      show ?thesis using False s [unfolded Inl] by (rule thrown)
    next
      case (Inr p)
      obtain rest es where p: "p = (rest, es)" by (cases p) auto
      have "Q os rest (out @ es) st1"
        using False s [symmetric] Inr p [symmetric] by (rule "1.IH")
      with False s [unfolded Inr p] show ?thesis by (rule continue)
    qed
  qed
qed

lemma parseXMSCore_loop_errors:
  "parseXMSCore_loop os body out st = (r, st') \<Longrightarrow>
     (case r of
        Inr x \<Rightarrow> state_errors st' = state_errors st
      | Inl err \<Rightarrow> err = MalformedQuotes
          \<and> (\<exists>msg \<in> malformedMessages. state_errors st' = state_errors st @ [msg]))"
proof (induction os body out st rule: parseXMSCore_loop_induct)
  case (finished os body out st)
  from finished(2) parseXMSCore_loop_done [OF finished(1), of os out st]
  have "r = Inr out" "st' = st" by simp_all
  then show ?case by simp
next
  case (thrown os body out st err st1)
  from thrown(3) parseXMSCore_loop_throw [OF thrown(1,2), of out]
  have "r = Inl err" "st' = st1" by simp_all
  with parseXMSCore_step_errors [OF thrown(2)] show ?case by simp
next
  case (continue os body out st rest es st1)
  from continue(4) parseXMSCore_loop_next [OF continue(1,2), of out]
  have "parseXMSCore_loop os rest (out @ es) st1 = (r, st')" by simp
  from continue(3) [OF this] parseXMSCore_step_errors [OF continue(2)]
  show ?case by (cases r) simp_all
qed

section \<open>The three ways through \<open>parse\<close>\<close>

lemma parse_legacy:
  assumes "xmsPrefix (input this) = None"
    and "parseCommonMeta (opts this) (input this) \<lparr>state_warnings = [], state_errors = []\<rparr> = (es, st)"
  shows "version (parse this) = 0" "isFallback (parse this)" "errors (parse this) = []"
    "entries (parse this) = fst (ingest (opts this) es [] (state_warnings st))"
    "data (parse this) = fst (snd (ingest (opts this) es [] (state_warnings st)))"
proof -
  have "state_errors st = []"
    using parseCommonMeta_errors [of "opts this" "input this" "\<lparr>state_warnings = [], state_errors = []\<rparr>"]
      assms(2) by simp
  then show "version (parse this) = 0" "isFallback (parse this)" "errors (parse this) = []"
    "entries (parse this) = fst (ingest (opts this) es [] (state_warnings st))"
    "data (parse this) = fst (snd (ingest (opts this) es [] (state_warnings st)))"
    using assms by (simp_all add: parse_def Let_def split: prod.splits)
qed

lemma parse_strict:
  assumes "xmsPrefix (input this) = Some (ds, body)"
    and "parseXMSCore (opts this) body \<lparr>state_warnings = [], state_errors = []\<rparr> = (Inr es, st)"
  shows "version (parse this) = parseInt ds" "\<not> isFallback (parse this)" "errors (parse this) = []"
    "entries (parse this) = fst (ingest (opts this) es [] (state_warnings st))"
    "data (parse this) = fst (snd (ingest (opts this) es [] (state_warnings st)))"
proof -
  have "state_errors st = []"
    using parseXMSCore_loop_errors [OF assms(2) [unfolded parseXMSCore_def]] by simp
  then show "version (parse this) = parseInt ds" "\<not> isFallback (parse this)" "errors (parse this) = []"
    "entries (parse this) = fst (ingest (opts this) es [] (state_warnings st))"
    "data (parse this) = fst (snd (ingest (opts this) es [] (state_warnings st)))"
    using assms by (simp_all add: parse_def Let_def split: prod.splits)
qed

lemma parse_fallback:
  assumes "xmsPrefix (input this) = Some (ds, body)"
    and "parseXMSCore (opts this) body \<lparr>state_warnings = [], state_errors = []\<rparr> = (Inl err, st)"
  shows "version (parse this) = 0" "isFallback (parse this)"
    "\<exists>msg \<in> malformedMessages. errors (parse this) = [msg]"
    "entries (parse this) =
       (if orElse (reparseOnFallback (opts this)) True
        then fst (ingest (opts this) (fst (parseCommonMeta (opts this) (input this) st)) []
                    (state_warnings (snd (parseCommonMeta (opts this) (input this) st))))
        else [])"
proof -
  obtain msg where msg: "msg \<in> malformedMessages" "state_errors st = [msg]"
    using parseXMSCore_loop_errors [OF assms(2) [unfolded parseXMSCore_def]] by auto
  have pe: "state_errors (snd (parseCommonMeta (opts this) (input this) st)) = [msg]"
    using parseCommonMeta_errors [of "opts this" "input this" st] msg(2) by simp
  show "version (parse this) = 0" "isFallback (parse this)"
    using assms by (simp_all add: parse_def Let_def split: prod.splits)
  have "errors (parse this) = [msg]"
    using assms msg(2) pe by (auto simp: parse_def Let_def split: prod.splits)
  with msg(1) show "\<exists>msg \<in> malformedMessages. errors (parse this) = [msg]" by blast
  show "entries (parse this) =
       (if orElse (reparseOnFallback (opts this)) True
        then fst (ingest (opts this) (fst (parseCommonMeta (opts this) (input this) st)) []
                    (state_warnings (snd (parseCommonMeta (opts this) (input this) st))))
        else [])"
    using assms by (auto simp: parse_def Let_def split: prod.splits)
qed

section \<open>Parsing a string\<close>

lemma input_initialDoc [simp]: "input (initialDoc s os) = s"
  by (simp add: initialDoc_def)

lemma opts_initialDoc [simp]: "opts (initialDoc s os) = os"
  by (simp add: initialDoc_def)

text \<open>The entry list of \<open>tokenize\<close> is the one \<open>parse\<close> ingests.\<close>

lemma parse_tokenize:
  "entries (parse this) = map (limitEntry (opts this)) (tokenize this)"
proof -
  have lim: "\<And>es dat w. fst (ingest (opts this) es dat w) = map (limitEntry (opts this)) es"
    using ingest_entries unfolding limitEntry_def [abs_def] .
  show ?thesis
  proof (cases "xmsPrefix (input this)")
    case None
    obtain es st where
      l: "parseCommonMeta (opts this) (input this) \<lparr>state_warnings = [], state_errors = []\<rparr> = (es, st)"
      by (cases "parseCommonMeta (opts this) (input this) \<lparr>state_warnings = [], state_errors = []\<rparr>") auto
    have "tokenize this = es" using None l by (simp add: tokenize_def)
    with parse_legacy(4) [OF None l] lim show ?thesis by simp
  next
    case (Some p)
    obtain ds body where p: "p = (ds, body)" by (cases p) auto
    obtain r st where
      r: "parseXMSCore (opts this) body \<lparr>state_warnings = [], state_errors = []\<rparr> = (r, st)"
      by (cases "parseXMSCore (opts this) body \<lparr>state_warnings = [], state_errors = []\<rparr>") auto
    show ?thesis
    proof (cases r)
      case (Inl err)
      have "tokenize this =
          (if orElse (reparseOnFallback (opts this)) True
           then fst (parseCommonMeta (opts this) (input this) st) else [])"
        using Some p r Inl by (simp add: tokenize_def)
      with parse_fallback(4) [OF Some [unfolded p] r [unfolded Inl]] lim show ?thesis by simp
    next
      case (Inr es)
      have "tokenize this = es" using Some p r Inr by (simp add: tokenize_def)
      with parse_strict(4) [OF Some [unfolded p] r [unfolded Inr]] lim show ?thesis by simp
    qed
  qed
qed

lemma parse_fallback_version: "isFallback (parse this) \<Longrightarrow> version (parse this) = 0"
proof (cases "xmsPrefix (input this)")
  case None
  obtain es st where
    "parseCommonMeta (opts this) (input this) \<lparr>state_warnings = [], state_errors = []\<rparr> = (es, st)"
    by (cases "parseCommonMeta (opts this) (input this) \<lparr>state_warnings = [], state_errors = []\<rparr>") auto
  from parse_legacy(1) [OF None this] show ?thesis .
next
  case (Some p)
  assume fb: "isFallback (parse this)"
  obtain ds body where p: "p = (ds, body)" by (cases p) auto
  obtain r st where
    r: "parseXMSCore (opts this) body \<lparr>state_warnings = [], state_errors = []\<rparr> = (r, st)"
    by (cases "parseXMSCore (opts this) body \<lparr>state_warnings = [], state_errors = []\<rparr>") auto
  show ?thesis
  proof (cases r)
    case (Inl err)
    from parse_fallback(1) [OF Some [unfolded p] r [unfolded Inl]] show ?thesis .
  next
    case (Inr es)
    from parse_strict(2) [OF Some [unfolded p] r [unfolded Inr]] fb show ?thesis by simp
  qed
qed

section \<open>Without the override \<open>ingest\<close> raises no exception\<close>

lemma assignSegs_store_default:
  "\<not> ow \<Longrightarrow> \<exists>st'. assignSegs_store ow st cur segs v = Inr st'"
proof (induction ow st cur segs v rule: assignSegs_store.induct)
  case (1 ow st cur v)
  show ?case by simp
next
  case (2 ow st cur seg v)
  show ?case by simp
next
  case (3 ow st cur seg s2 rest v)
  then show ?case
    by (auto split: option.splits JSValue.splits prod.splits)
qed

lemma assignNested_store_default:
  "\<not> orElse (overwriteScalarsForNested os) False \<Longrightarrow>
     \<exists>st'. assignNested_store os st key v d f n = Inr st'"
  using assignSegs_store_default [of "orElse (overwriteScalarsForNested os) False"]
  by (simp add: assignNested_store_def Let_def)

lemma ingest_store_default:
  "\<not> orElse (overwriteScalarsForNested os) False \<Longrightarrow> \<exists>st'. ingest_store os es st = Inr st'"
proof (induction es arbitrary: st)
  case Nil
  show ?case by simp
next
  case (Cons e es)
  from assignNested_store_default [OF Cons.prems] obtain st1 where
    "assignNested_store os st (name e) (coerceValue os (value (limitEntry os e)))
       (orElse (maxNestingDepth os) (orElse (maxNestingDepth DEFAULT_OPTIONS) 5))
       (orElse (createFlatKeys os) True) (orElse (createNestedKeys os) True) = Inr st1"
    by blast
  with Cons.IH [OF Cons.prems, of st1] show ?case by simp
qed

lemma ingestThrows_default:
  "\<not> orElse (overwriteScalarsForNested os) False \<Longrightarrow> ingestThrows os es = None"
  using ingest_store_default [of os es initialStore] by (auto simp: ingestThrows_def)

lemma override_spread:
  "orElse (overwriteScalarsForNested (spread DEFAULT_OPTIONS os)) False
     = orElse (overwriteScalarsForNested os) False"
  by (simp add: spread_def DEFAULT_OPTIONS_def noOptions_def orElse_def orOpt_def
        split: option.splits)

lemma XMSDoc_parse_string:
  "\<not> orElse (overwriteScalarsForNested options) False \<Longrightarrow>
     XMSDoc_parse (JString s) options = Inr (parseString s options)"
  using ingestThrows_default [of "spread DEFAULT_OPTIONS (options\<lparr>defer := Some False\<rparr>)"]
    override_spread [of "options\<lparr>defer := Some False\<rparr>"]
  by (simp add: XMSDoc_parse_def XMSDoc_new_def parseString_def parseThrows_def orElse_def Let_def)

lemma no_override_default: "\<not> orElse (overwriteScalarsForNested noOptions) False"
  by (simp add: noOptions_def orElse_def)

section \<open>Keys with no inherited name\<close>

text \<open>
  For a name that is not inherited, and as long as \<open>Object.prototype\<close> is as the
  language defines it, reading \<open>cur[seg]\<close> finds the own property or nothing, and
  writing it defines or replaces the own property: what \<open>getProp\<close> and \<open>setProp\<close> do
  on the value tree.
\<close>

lemma getProperty_own:
  assumes "\<not> inheritedName seg" and "cur \<noteq> 0"
    and "own (objectAt st 0) = own (objectAt initialStore 0)"
  shows "getProperty st cur seg = map_of (own (objectAt st cur)) seg"
proof -
  have "seg \<noteq> ''__proto__''" "seg \<notin> set functionNames"
    using assms(1) by (simp_all add: inheritedName_def)
  then have "map_of (own (objectAt st 0)) seg = None"
    using assms(3) by (simp add: initialStore_def map_of_eq_None_iff image_iff)
  with \<open>seg \<noteq> ''__proto__''\<close> assms(2) show ?thesis
    by (simp add: getProperty_def split: option.splits)
qed

lemma assignValue_own:
  "\<not> inheritedName seg \<Longrightarrow> assignValue st cur seg v = putOwn st cur seg (Primitive v)"
  by (simp add: assignValue_def inheritedName_def)

text \<open>On a key with no such segment the walk never meets \<open>__proto__\<close>, so that
  \<open>ingest\<close> raises no exception, with or without the override.\<close>

lemma inheritedName_proto: "\<not> list_ex inheritedName segs \<Longrightarrow> ''__proto__'' \<notin> set segs"
  by (auto simp: list_ex_iff inheritedName_def)

lemma assignSegs_store_plain:
  "''__proto__'' \<notin> set segs \<Longrightarrow> \<exists>st'. assignSegs_store ow st cur segs v = Inr st'"
proof (induction ow st cur segs v rule: assignSegs_store.induct)
  case (1 ow st cur v)
  show ?case by simp
next
  case (2 ow st cur seg v)
  show ?case by simp
next
  case (3 ow st cur seg s2 rest v)
  then show ?case
    by (auto split: option.splits JSValue.splits prod.splits)
qed

lemma assignNested_store_plain:
  "\<not> list_ex inheritedName (splitDot [] key) \<Longrightarrow>
     \<exists>st'. assignNested_store os st key v d f n = Inr st'"
  using assignSegs_store_plain [OF inheritedName_proto, of "splitDot [] key"]
  by (simp add: assignNested_store_def Let_def)

lemma ingest_store_plain:
  "\<forall>e \<in> set es. \<not> list_ex inheritedName (splitDot [] (name e)) \<Longrightarrow>
     \<exists>st'. ingest_store os es st = Inr st'"
proof (induction es arbitrary: st)
  case Nil
  show ?case by simp
next
  case (Cons e es)
  then have "\<not> list_ex inheritedName (splitDot [] (name e))" by simp
  from assignNested_store_plain [OF this] obtain st1 where
    "assignNested_store os st (name e) (coerceValue os (value (limitEntry os e)))
       (orElse (maxNestingDepth os) (orElse (maxNestingDepth DEFAULT_OPTIONS) 5))
       (orElse (createFlatKeys os) True) (orElse (createNestedKeys os) True) = Inr st1"
    by blast
  with Cons.IH [of st1] Cons.prems show ?case by simp
qed

lemma name_limitEntry [simp]: "name (limitEntry os e) = name e"
  by (simp add: limitEntry_def)

lemma parseThrows_plain:
  assumes "\<forall>e \<in> set (entries (parse this)). \<not> list_ex inheritedName (splitDot [] (name e))"
  shows "parseThrows this = None"
proof -
  have "\<forall>e \<in> set (tokenize this). \<not> list_ex inheritedName (splitDot [] (name e))"
    using assms by (simp add: parse_tokenize)
  from ingest_store_plain [OF this, of "opts this" initialStore] show ?thesis
    by (auto simp: parseThrows_def ingestThrows_def)
qed

lemma XMSDoc_parse_plain:
  assumes "\<forall>e \<in> set (entries (parseString s os)).
             \<not> list_ex inheritedName (splitDot [] (name e))"
  shows "XMSDoc_parse (JString s) os = Inr (parseString s os)"
  using parseThrows_plain [OF assms [unfolded parseString_def]]
  by (simp add: XMSDoc_parse_def XMSDoc_new_def parseString_def orElse_def Let_def)

section \<open>The fallback flag and the version (C6)\<close>

text \<open>
  C6, as stated, fails: \<open>XMSDoc.from\<close> over an entry log sets \<open>version\<close> and
  \<open>isFallback\<close> from two independent options, so a caller who passes
  \<open>isFallback: true\<close> gets a document with \<open>isFallback = true\<close> and \<open>version = 1\<close>.
\<close>

theorem from_entries_fallback_version_one:
  "XMSDoc_from (SourceEntries []) noOptions
     \<lparr>from_version = None, from_isFallback = Some True, preserveWarnings = None,
      preserveErrors = None\<rparr>
   = Inr \<lparr> version = 1, isFallback = True, entries = [], data = [], warnings = [], errors = [],
           input = [], opts = spread DEFAULT_OPTIONS (noOptions\<lparr>defer := Some True\<rparr>) \<rparr>"
  by (simp add: XMSDoc_from_def deferredDoc_def initialDoc_def orElse_def Let_def
        ingestThrows_def)

text \<open>
  C6, amended. For every document produced by \<open>parse\<close>, by \<open>safeParse\<close>, by the static
  \<open>XMSDoc.parse\<close> or by \<open>from\<close> over a string, \<open>isFallback\<close> implies \<open>version = 0\<close>.
  \<open>from\<close> over an entry log or a value tree takes \<open>version\<close> (default 1) and
  \<open>isFallback\<close> (default false) from its options, and over a document-like
  structure from its options or else from the source, each on its own.
\<close>

theorem fallback_implies_version_zero:
  "(isFallback (parse this) \<longrightarrow> version (parse this) = 0)
   \<and> (safeParse inp os = Inr d \<longrightarrow> isFallback d \<longrightarrow> version d = 0)
   \<and> (XMSDoc_parse inp os = Inr d \<longrightarrow> isFallback d \<longrightarrow> version d = 0)
   \<and> (XMSDoc_from (SourceString s) os fo = Inr d \<longrightarrow> isFallback d \<longrightarrow> version d = 0)
   \<and> (XMSDoc_from (SourceEntries es) os fo = Inr d \<or> XMSDoc_from (SourceNode node) os fo = Inr d
        \<longrightarrow> version d = orElse (from_version fo) 1
            \<and> isFallback d = orElse (from_isFallback fo) False)
   \<and> (XMSDoc_from (SourceParsedLike src) os fo = Inr d
        \<longrightarrow> version d = orElse (from_version fo) (like_version src)
            \<and> isFallback d = orElse (from_isFallback fo) (like_isFallback src))"
proof (intro conjI impI)
  show "isFallback (parse this) \<Longrightarrow> version (parse this) = 0"
    by (rule parse_fallback_version)
  show "safeParse inp os = Inr d \<Longrightarrow> isFallback d \<Longrightarrow> version d = 0"
    by (cases inp)
       (auto simp: safeParse_def catching_def XMSDoc_new_def Let_def initialDoc_def noOptions_def
               orElse_def
             dest: parse_fallback_version split: if_splits option.splits)
  show c: "XMSDoc_parse inp os = Inr d \<Longrightarrow> isFallback d \<Longrightarrow> version d = 0" for inp
    by (cases inp)
       (auto simp: XMSDoc_parse_def XMSDoc_new_def Let_def initialDoc_def orElse_def
             dest: parse_fallback_version split: if_splits option.splits)
  show "XMSDoc_from (SourceString s) os fo = Inr d \<Longrightarrow> isFallback d \<Longrightarrow> version d = 0"
    using c [of "JString s"] by (simp add: XMSDoc_from_def)
  assume "XMSDoc_from (SourceEntries es) os fo = Inr d \<or> XMSDoc_from (SourceNode node) os fo = Inr d"
  then show "version d = orElse (from_version fo) 1"
    "isFallback d = orElse (from_isFallback fo) False"
    by (auto simp: XMSDoc_from_def Let_def split: prod.splits option.splits)
next
  assume "XMSDoc_from (SourceParsedLike src) os fo = Inr d"
  then show "version d = orElse (from_version fo) (like_version src)"
    "isFallback d = orElse (from_isFallback fo) (like_isFallback src)"
    by (auto simp: XMSDoc_from_def Let_def)
qed

theorem fallback_implies_version_zero_witness:
  "isFallback (parseString ''a=b'' noOptions) \<and> version (parseString ''a=b'' noOptions) = 0"
proof -
  have fb: "isFallback (parseString ''a=b'' noOptions)"
    by code_simp
  from fallback_implies_version_zero
    [of "initialDoc ''a=b'' (spread DEFAULT_OPTIONS (noOptions\<lparr>defer := Some False\<rparr>))"]
  have "isFallback (parseString ''a=b'' noOptions) \<longrightarrow> version (parseString ''a=b'' noOptions) = 0"
    unfolding parseString_def by blast
  with fb show ?thesis by blast
qed

section \<open>The non-throwing entry point (C9)\<close>



section \<open>The error list (C10)\<close>

text \<open>
  C10. The error list of a parsed document is non-empty exactly when \<open>parse\<close> found
  the version prefix and the strict tokenizer threw on the rest; it then holds the one
  message of the malformation (unterminated quote, malformed quoted value or dangling
  backslash). A document parsed by the legacy tokenizer because the prefix is absent is
  a fallback document with an empty error list.
\<close>

theorem errors_iff_strict_failure:
  "(errors (parse this) \<noteq> [] \<longleftrightarrow>
      (\<exists>ds body err st. xmsPrefix (input this) = Some (ds, body)
         \<and> parseXMSCore (opts this) body \<lparr>state_warnings = [], state_errors = []\<rparr> = (Inl err, st)))
   \<and> (xmsPrefix (input this) = None \<longrightarrow> isFallback (parse this) \<and> errors (parse this) = [])
   \<and> set (errors (parse this)) \<subseteq> malformedMessages"
proof (cases "xmsPrefix (input this)")
  case None
  obtain es st where
    "parseCommonMeta (opts this) (input this) \<lparr>state_warnings = [], state_errors = []\<rparr> = (es, st)"
    by (cases "parseCommonMeta (opts this) (input this) \<lparr>state_warnings = [], state_errors = []\<rparr>") auto
  from parse_legacy(2,3) [OF None this] None show ?thesis by simp
next
  case (Some p)
  obtain ds body where p: "p = (ds, body)" by (cases p) auto
  obtain r st where
    r: "parseXMSCore (opts this) body \<lparr>state_warnings = [], state_errors = []\<rparr> = (r, st)"
    by (cases "parseXMSCore (opts this) body \<lparr>state_warnings = [], state_errors = []\<rparr>") auto
  show ?thesis
  proof (cases r)
    case (Inl err)
    from parse_fallback(3) [OF Some [unfolded p] r [unfolded Inl]] Some p r Inl
    show ?thesis by auto
  next
    case (Inr es)
    from parse_strict(3) [OF Some [unfolded p] r [unfolded Inr]] Some p r Inr
    show ?thesis by auto
  qed
qed

theorem errors_iff_strict_failure_witness:
  "xmsPrefix (input (initialDoc ''a=b'' DEFAULT_OPTIONS)) = None
   \<and> isFallback (parse (initialDoc ''a=b'' DEFAULT_OPTIONS))
   \<and> errors (parse (initialDoc ''a=b'' DEFAULT_OPTIONS)) = []"
proof -
  have h: "xmsPrefix (input (initialDoc ''a=b'' DEFAULT_OPTIONS)) = None"
    by (simp add: xmsPrefix_def)
  with errors_iff_strict_failure [of "initialDoc ''a=b'' DEFAULT_OPTIONS"]
  show ?thesis by blast
qed

section \<open>The version prefix (C2)\<close>

text \<open>
  C2. The claim asks for the prefix \<open>xms/\<close>, digits, \<open>;\<close>. \<open>parse\<close> tests the input
  against \<open>/^xms\/(\d+)/\<close>, with no \<open>;\<close>, whereas \<open>isProbablyXMS\<close> tests it against
  \<open>/^xms\/\d+;/\<close>. On \<open>xms/1a=b\<close>, which \<open>isProbablyXMS\<close> rejects, \<open>parse\<close> takes
  the strict tokenizer: version 1, no fallback, the one entry \<open>a = b\<close>.
\<close>

theorem parse_accepts_prefix_without_semicolon:
  "\<not> isProbablyXMS ''xms/1a=b''
   \<and> XMSDoc_parse (JString ''xms/1a=b'') noOptions = Inr (parseString ''xms/1a=b'' noOptions)
   \<and> version (parseString ''xms/1a=b'' noOptions) = 1
   \<and> \<not> isFallback (parseString ''xms/1a=b'' noOptions)
   \<and> entries (parseString ''xms/1a=b'' noOptions) = [\<lparr>name = ''a'', value = Some ''b''\<rparr>]"
proof (intro conjI)
  show "\<not> isProbablyXMS ''xms/1a=b''" by code_simp
  show "XMSDoc_parse (JString ''xms/1a=b'') noOptions = Inr (parseString ''xms/1a=b'' noOptions)"
    using no_override_default by (rule XMSDoc_parse_string)
  show "version (parseString ''xms/1a=b'' noOptions) = 1" by code_simp
  show "\<not> isFallback (parseString ''xms/1a=b'' noOptions)" by code_simp
  show "entries (parseString ''xms/1a=b'' noOptions) = [\<lparr>name = ''a'', value = Some ''b''\<rparr>]"
    by code_simp
qed

section \<open>Recovery after a strict failure (C1)\<close>

lemma splitTokens_first:
  "cur @ takeWhile (\<lambda>c. c \<noteq> semicolon) s \<noteq> [] \<Longrightarrow>
     \<exists>toks. splitTokens cur s = (cur @ takeWhile (\<lambda>c. c \<noteq> semicolon) s) # toks"
proof (induction s arbitrary: cur)
  case Nil
  then show ?case by simp
next
  case (Cons a s)
  show ?case
  proof (cases "a = semicolon")
    case True
    with Cons.prems show ?thesis by simp
  next
    case False
    have "(cur @ [a]) @ takeWhile (\<lambda>c. c \<noteq> semicolon) s \<noteq> []" by simp
    from Cons.IH [OF this] False show ?thesis by simp
  qed
qed

lemma parseCommonMeta_loop_acc:
  "fst (parseCommonMeta_loop os toks out st) = out @ fst (parseCommonMeta_loop os toks [] st)"
proof (induction toks arbitrary: out st)
  case Nil
  show ?case by simp
next
  case (Cons tk toks)
  obtain r st' where t: "parseCommonMeta_token os tk st = (r, st')"
    by (cases "parseCommonMeta_token os tk st") auto
  show ?case
  proof (cases r)
    case None
    with t Cons.IH [of out st'] Cons.IH [of "[]" st'] show ?thesis by simp
  next
    case (Some e)
    with t Cons.IH [of "out @ [e]" st'] Cons.IH [of "[e]" st'] show ?thesis by simp
  qed
qed

lemma parseCommonMeta_loop_first:
  assumes "parseCommonMeta_token os tk st = (Some e, st')"
  shows "fst (parseCommonMeta_loop os (tk # toks) [] st) = e # fst (parseCommonMeta_loop os toks [] st')"
  using assms parseCommonMeta_loop_acc [of os toks "[e]" st'] by simp

lemma trim_eq_Nil: "trim s = [] \<longleftrightarrow> (\<forall>c \<in> set s. isSpace c)"
proof
  assume t: "trim s = []"
  show "\<forall>c \<in> set s. isSpace c"
  proof (rule ccontr)
    assume "\<not> (\<forall>c \<in> set s. isSpace c)"
    then have a: "dropWhile isSpace s \<noteq> []" unfolding dropWhile_eq_Nil_conv .
    then have b: "\<not> isSpace (hd (dropWhile isSpace s))" by (rule hd_dropWhile)
    have c: "hd (dropWhile isSpace s) \<in> set (rev (dropWhile isSpace s))" using a by simp
    from b c have "\<not> (\<forall>x \<in> set (rev (dropWhile isSpace s)). isSpace x)" by blast
    then have "dropWhile isSpace (rev (dropWhile isSpace s)) \<noteq> []"
      unfolding dropWhile_eq_Nil_conv .
    with t show False by (simp add: trim_def del: dropWhile_eq_Nil_conv)
  qed
next
  assume "\<forall>c \<in> set s. isSpace c"
  then have "dropWhile isSpace s = []" unfolding dropWhile_eq_Nil_conv .
  then show "trim s = []" by (simp add: trim_def del: dropWhile_eq_Nil_conv)
qed

lemma parseCommonMeta_token_kept:
  assumes "orElse (keepInvalidKeys os) True" "trim text \<noteq> []"
  shows "\<exists>e st'. parseCommonMeta_token os text st = (Some e, st')"
  using assms by (auto simp: parseCommonMeta_token_def Let_def split: prod.splits option.splits)

lemma xmsPrefix_shape:
  assumes "xmsPrefix s = Some (ds, body)"
  shows "s = ''xms/'' @ ds @ body" "ds \<noteq> []" "list_all isDigit ds"
proof -
  from assms have t: "take 4 s = ''xms/''" and ds: "ds = takeWhile isDigit (drop 4 s)"
    and body: "body = dropWhile isDigit (drop 4 s)" and ne: "ds \<noteq> []"
    by (auto simp: xmsPrefix_def split: if_splits)
  have "s = take 4 s @ drop 4 s" by simp
  also have "drop 4 s = ds @ body" using ds body by simp
  finally show "s = ''xms/'' @ ds @ body" using t by simp
  show "ds \<noteq> []" by (rule ne)
  show "list_all isDigit ds" using ds by (simp add: list_all_iff) (meson set_takeWhileD)
qed

lemma legacy_nonempty_on_prefixed:
  assumes "xmsPrefix s = Some (ds, body)" "orElse (keepInvalidKeys os) True"
  shows "fst (parseCommonMeta os s st) \<noteq> []"
proof -
  from xmsPrefix_shape(1) [OF assms(1)] obtain s' where s: "s = CHR ''x'' # s'" by simp
  let ?tk = "takeWhile (\<lambda>c. c \<noteq> semicolon) s"
  have tk: "?tk = CHR ''x'' # takeWhile (\<lambda>c. c \<noteq> semicolon) s'" using s by simp
  then have "[] @ ?tk \<noteq> []" by simp
  from splitTokens_first [OF this] obtain toks where sp: "splitTokens [] s = ?tk # toks" by auto
  have "\<not> isSpace (CHR ''x'')" by (simp add: isSpace_def)
  then have "trim ?tk \<noteq> []" using tk by (auto simp: trim_eq_Nil)
  from parseCommonMeta_token_kept [OF assms(2) this] obtain e st' where
    "parseCommonMeta_token os ?tk st = (Some e, st')" by blast
  from parseCommonMeta_loop_first [OF this, of toks] sp show ?thesis
    by (simp add: parseCommonMeta_def)
qed

lemma isDigit_plain:
  assumes "isDigit c"
  shows "\<not> isSpace c" "c \<noteq> semicolon" "c \<noteq> equals" "toLowerChar c = c"
  using assms by (auto simp: isDigit_def isSpace_def toLowerChar_def Let_def)

lemma trim_id:
  assumes "s \<noteq> []" "\<not> isSpace (hd s)" "\<not> isSpace (last s)"
  shows "trim s = s"
proof -
  have a: "dropWhile isSpace s = s" using assms(1,2) by (cases s) auto
  have "rev s \<noteq> []" "\<not> isSpace (hd (rev s))" using assms(1,3) by (simp_all add: hd_rev)
  then have "dropWhile isSpace (rev s) = rev s" by (cases "rev s") auto
  with a show ?thesis by (simp add: trim_def)
qed

lemma legacy_first_entry:
  assumes "xmsPrefix s = Some (ds, body)" "isProbablyXMS s" "orElse (keepInvalidKeys os) True"
  shows "\<exists>es. fst (parseCommonMeta os s st) = \<lparr>name = ''xms/'' @ ds, value = Some []\<rparr> # es"
proof -
  note sh = xmsPrefix_shape [OF assms(1)]
  have dig: "\<And>c. c \<in> set ds \<Longrightarrow> isDigit c" using sh(3) by (simp add: list_all_iff)
  from assms(1,2) have "take 1 body = [semicolon]"
    by (auto simp: xmsPrefix_def isProbablyXMS_def split: if_splits)
  then obtain body' where body: "body = semicolon # body'" by (cases body) auto
  let ?tk = "''xms/'' @ ds"
  have s: "s = ?tk @ semicolon # body'" using sh(1) body by simp
  have nosemi: "\<And>c. c \<in> set ?tk \<Longrightarrow> c \<noteq> semicolon"
    using dig isDigit_plain(2) by auto
  have tw: "takeWhile (\<lambda>c. c \<noteq> semicolon) s = ?tk"
    unfolding s using nosemi by (subst takeWhile_append2) auto
  have "[] @ takeWhile (\<lambda>c. c \<noteq> semicolon) s \<noteq> []" using tw by simp
  from splitTokens_first [OF this] obtain toks where sp: "splitTokens [] s = ?tk # toks"
    using tw by auto
  have "last ?tk = last ds" using sh(2) by simp
  moreover have "isDigit (last ds)" using sh(2) dig by simp
  ultimately have "\<not> isSpace (last ?tk)" using isDigit_plain(1) by simp
  moreover have "\<not> isSpace (hd ?tk)" by (simp add: isSpace_def)
  ultimately have tr: "trim ?tk = ?tk" using trim_id [of ?tk] by simp
  have "equals \<notin> set ?tk" using dig isDigit_plain(3) by auto
  then have ix: "indexOf equals ?tk = None" by (rule indexOf_None)
  have "map toLowerChar ds = ds" using dig isDigit_plain(4) by (simp add: map_idI)
  then have lc: "toLowerCase ?tk = ?tk" by (simp add: toLowerCase_def toLowerChar_def)
  have "\<not> keyChar (CHR ''/'')" by (simp add: keyChar_def isDigit_def)
  then have nk: "\<not> KEY_PATTERN ?tk" by (simp add: KEY_PATTERN_def)
  have "fst (parseCommonMeta_token os ?tk st) = Some \<lparr>name = ?tk, value = Some []\<rparr>"
    using assms(3) nk by (simp add: parseCommonMeta_token_def tr ix lc Let_def del: append.simps)
  then obtain st' where "parseCommonMeta_token os ?tk st = (Some \<lparr>name = ?tk, value = Some []\<rparr>, st')"
    by (cases "parseCommonMeta_token os ?tk st") auto
  from parseCommonMeta_loop_first [OF this, of toks] sp show ?thesis
    by (simp add: parseCommonMeta_def)
qed

text \<open>
  C1. With the default options, when \<open>parse\<close> has matched the version prefix and the
  strict tokenizer throws on the rest (unterminated quote, malformed quoted value or
  dangling backslash), \<open>XMSDoc.parse\<close> returns a document and no exception:
  \<open>isFallback = true\<close>, \<open>version = 0\<close>, and the entry log is the legacy tokenizer's
  over the whole input, each value cut to its key's limit; it is not empty. When the
  prefix ends with \<open>;\<close>, its first entry is the prefix itself as a bare token.
\<close>

theorem strict_failure_falls_back:
  assumes "xmsPrefix s = Some (ds, body)"
    and "parseXMSCore (spread DEFAULT_OPTIONS (noOptions\<lparr>defer := Some False\<rparr>)) body
           \<lparr>state_warnings = [], state_errors = []\<rparr> = (Inl err, st)"
  shows "XMSDoc_parse (JString s) noOptions = Inr (parseString s noOptions)
    \<and> isFallback (parseString s noOptions)
    \<and> version (parseString s noOptions) = 0
    \<and> entries (parseString s noOptions) \<noteq> []
    \<and> entries (parseString s noOptions) =
        map (\<lambda>e. e\<lparr>value := map_option (\<lambda>v. fst (enforceLength (name e) v [])) (value e)\<rparr>)
          (fst (parseCommonMeta (spread DEFAULT_OPTIONS (noOptions\<lparr>defer := Some False\<rparr>)) s st))
    \<and> (isProbablyXMS s \<longrightarrow>
         hd (entries (parseString s noOptions)) = \<lparr>name = ''xms/'' @ ds, value = Some []\<rparr>)"
proof -
  let ?os = "spread DEFAULT_OPTIONS (noOptions\<lparr>defer := Some False\<rparr>)"
  let ?doc = "initialDoc s ?os"
  let ?cut = "\<lambda>e. e\<lparr>value := map_option (\<lambda>v. fst (enforceLength (name e) v [])) (value e)\<rparr>"
  have keep: "orElse (keepInvalidKeys ?os) True"
    and re: "orElse (reparseOnFallback ?os) True"
    and lim: "orElse (enforceLimits ?os) True"
    by (simp_all add: spread_def DEFAULT_OPTIONS_def noOptions_def orElse_def orOpt_def)
  have p: "xmsPrefix (input ?doc) = Some (ds, body)" using assms(1) by simp
  have f: "parseXMSCore (opts ?doc) body \<lparr>state_warnings = [], state_errors = []\<rparr> = (Inl err, st)"
    using assms(2) by simp
  have cut: "(\<lambda>e. e\<lparr>value := (case value e of
                            Some v \<Rightarrow> if orElse (enforceLimits ?os) True
                                      then Some (fst (enforceLength (name e) v [])) else Some v
                          | None \<Rightarrow> None)\<rparr>) = ?cut"
    using lim by (auto simp: fun_eq_iff split: option.splits)
  have en: "entries (parseString s noOptions) = map ?cut (fst (parseCommonMeta ?os s st))"
    using parse_fallback(4) [OF p f] re
    by (simp only: parseString_def input_initialDoc opts_initialDoc ingest_entries cut if_True)
  have ne: "fst (parseCommonMeta ?os s st) \<noteq> []"
    by (rule legacy_nonempty_on_prefixed [OF assms(1) keep])
  have first: "hd (entries (parseString s noOptions)) = \<lparr>name = ''xms/'' @ ds, value = Some []\<rparr>"
    if "isProbablyXMS s"
  proof -
    from legacy_first_entry [OF assms(1) that keep, of st] obtain es where
      "fst (parseCommonMeta ?os s st) = \<lparr>name = ''xms/'' @ ds, value = Some []\<rparr> # es" by blast
    then show ?thesis by (simp add: en enforceLength_def Let_def)
  qed
  show ?thesis
    using XMSDoc_parse_string [OF no_override_default, of s] parse_fallback(1,2) [OF p f] en ne first
    by (simp add: parseString_def)
qed

theorem strict_failure_falls_back_witness:
  "xmsPrefix (''xms/1;username='' @ [dquote] @ ''steve;item=sword'')
     = Some (''1'', '';username='' @ [dquote] @ ''steve;item=sword'')
   \<and> parseXMSCore (spread DEFAULT_OPTIONS (noOptions\<lparr>defer := Some False\<rparr>))
         ('';username='' @ [dquote] @ ''steve;item=sword'')
         \<lparr>state_warnings = [], state_errors = []\<rparr>
       = (Inl MalformedQuotes,
          \<lparr>state_warnings = [], state_errors = [''Unterminated quote; fallback.'']\<rparr>)
   \<and> isFallback (parseString (''xms/1;username='' @ [dquote] @ ''steve;item=sword'') noOptions)
   \<and> version (parseString (''xms/1;username='' @ [dquote] @ ''steve;item=sword'') noOptions) = 0
   \<and> entries (parseString (''xms/1;username='' @ [dquote] @ ''steve;item=sword'') noOptions) \<noteq> []
   \<and> hd (entries (parseString (''xms/1;username='' @ [dquote] @ ''steve;item=sword'') noOptions))
       = \<lparr>name = ''xms/1'', value = Some []\<rparr>"
proof -
  let ?s = "''xms/1;username='' @ [dquote] @ ''steve;item=sword''"
  let ?body = "'';username='' @ [dquote] @ ''steve;item=sword''"
  have h1: "xmsPrefix ?s = Some (''1'', ?body)" by code_simp
  have h2: "parseXMSCore (spread DEFAULT_OPTIONS (noOptions\<lparr>defer := Some False\<rparr>)) ?body
         \<lparr>state_warnings = [], state_errors = []\<rparr>
       = (Inl MalformedQuotes,
          \<lparr>state_warnings = [], state_errors = [''Unterminated quote; fallback.'']\<rparr>)"
    by code_simp
  have h3: "isProbablyXMS ?s" by code_simp
  note th = strict_failure_falls_back [OF h1 h2]
  from th have a: "isFallback (parseString ?s noOptions)"
    and b: "version (parseString ?s noOptions) = 0"
    and c: "entries (parseString ?s noOptions) \<noteq> []"
    by blast+
  from th h3 have "hd (entries (parseString ?s noOptions)) = \<lparr>name = ''xms/'' @ ''1'', value = Some []\<rparr>"
    by blast
  then have d: "hd (entries (parseString ?s noOptions)) = \<lparr>name = ''xms/1'', value = Some []\<rparr>"
    by simp
  from h1 h2 a b c d show ?thesis by blast
qed

section \<open>Conflicts on a nested path (C4)\<close>

lemma getProp_setProp: "getProp (setProp cur k v) k = Some v"
  by (induction cur) (auto simp: getProp_def)

lemma setProp_same: "getProp cur k = Some v \<Longrightarrow> setProp cur k v = cur"
  by (induction cur) (auto simp: getProp_def split: if_splits)

lemma conflictSeg_empty [simp]: "conflictSeg [] segs = None"
proof (cases segs)
  case Nil
  then show ?thesis by simp
next
  case (Cons s rest)
  then show ?thesis by (cases rest) (simp_all add: getProp_def)
qed

lemma assignSegs_override:
  "segs \<noteq> [] \<Longrightarrow> ow \<or> conflictSeg cur segs = None \<Longrightarrow>
     getPath (fst (assignSegs ow key cur segs v)) segs = Some v
     \<and> snd (assignSegs ow key cur segs v) = []"
proof (induction ow key cur segs v rule: assignSegs.induct)
  case (1 ow key cur v)
  then show ?case by simp
next
  case (2 ow key cur seg v)
  show ?case by (simp add: getProp_setProp)
next
  case (3 ow key cur seg s2 rest v)
  show ?case
  proof (cases "getProp cur seg")
    case None
    with 3 show ?thesis
      by (auto simp: getProp_setProp split: prod.splits)
  next
    case (Some x)
    show ?thesis
    proof (cases x)
      case (VObj ob)
      with 3 Some show ?thesis
        by (auto simp: getProp_setProp split: prod.splits)
    qed (use 3 Some in \<open>auto simp: getProp_setProp split: prod.splits\<close>)
  qed
qed

lemma assignSegs_skip:
  "conflictSeg cur segs = Some seg \<Longrightarrow>
     assignSegs False key cur segs v = (cur, [skipWarning key seg])"
proof (induction cur segs arbitrary: seg rule: conflictSeg.induct)
  case (1 cur)
  then show ?case by simp
next
  case (2 cur s)
  then show ?case by simp
next
  case (3 cur s s2 rest)
  show ?case
  proof (cases "getProp cur s")
    case None
    with 3(2) show ?thesis by simp
  next
    case (Some x)
    show ?thesis
    proof (cases x)
      case (VObj ob)
      with 3 Some have "assignSegs False key ob (s2 # rest) v = (ob, [skipWarning key seg])"
        by simp
      with Some VObj show ?thesis by (simp add: setProp_same)
    qed (use 3(2) Some in auto)
  qed
qed

lemma splitDot_nonempty: "splitDot cur s \<noteq> []"
  by (induction s arbitrary: cur) auto

text \<open>
  C4, as stated, fails for the default policy: after \<open>user=steve\<close>, the entry
  \<open>user.stats.level=5\<close> leaves the tree as it was, with a warning; no segment
  \<open>level\<close> receives the value.
\<close>

theorem default_conflict_drops_value:
  "data (parseString ''user=steve;user.stats.level=5'' noOptions) = [(''user'', VStr ''steve'')]
   \<and> getPath (data (parseString ''user=steve;user.stats.level=5'' noOptions))
         [''user'', ''stats'', ''level''] = None
   \<and> warnings (parseString ''user=steve;user.stats.level=5'' noOptions)
       = [skipWarning ''user.stats.level'' ''user'']"
  by code_simp

text \<open>
  C4, amended. Let an entry with a dotted name be materialized as a nested key (nested
  keys enabled, no empty segment, depth within the limit), let none of its segments
  be the name of a property that objects inherit from \<open>Object.prototype\<close> (such as
  \<open>__proto__\<close> or \<open>constructor\<close>), and let an intermediate segment on its path hold a
  value that is not an object. With the override option the walk replaces that value
  by a fresh object and goes on: the path then resolves to the entry's value, and no
  warning is added. By default the walk stops there: the tree stays as it was (with
  the flat key, if flat keys are enabled), the final segment does not receive the
  value, and one skip warning naming the segment is added. In both cases
  \<open>assignNested\<close> returns: it raises no exception.
\<close>

theorem nested_conflict_policy:
  assumes "cfg_createNestedKeys"
    and "\<not> list_ex (\<lambda>s. length s = 0) (splitDot [] key)"
    and "int (length (splitDot [] key)) \<le> cfg_maxNestingDepth"
    and "\<not> list_ex inheritedName (splitDot [] key)"
    and "conflictSeg (if cfg_createFlatKeys then setProp root key v else root) (splitDot [] key)
           = Some seg"
  shows
    "(orElse (overwriteScalarsForNested os) False \<longrightarrow>
        snd (assignNested os root key v cfg_maxNestingDepth cfg_createFlatKeys
               cfg_createNestedKeys w) = w
        \<and> getPath (fst (assignNested os root key v cfg_maxNestingDepth cfg_createFlatKeys
                            cfg_createNestedKeys w)) (splitDot [] key) = Some v)
     \<and> (\<not> orElse (overwriteScalarsForNested os) False \<longrightarrow>
        assignNested os root key v cfg_maxNestingDepth cfg_createFlatKeys cfg_createNestedKeys w
          = ((if cfg_createFlatKeys then setProp root key v else root),
             w @ [skipWarning key seg]))
     \<and> (\<exists>st'. assignNested_store os st key v cfg_maxNestingDepth cfg_createFlatKeys
                 cfg_createNestedKeys = Inr st')"
proof -
  define root1 where "root1 = (if cfg_createFlatKeys then setProp root key v else root)"
  define segs where "segs = splitDot [] key"
  have walk: "assignNested os root key v cfg_maxNestingDepth cfg_createFlatKeys cfg_createNestedKeys w
      = (fst (assignSegs (orElse (overwriteScalarsForNested os) False) key root1 segs v),
         w @ snd (assignSegs (orElse (overwriteScalarsForNested os) False) key root1 segs v))"
    using assms(1-3) unfolding root1_def segs_def
    by (simp add: assignNested_def Let_def split: prod.splits)
  have ne: "segs \<noteq> []" unfolding segs_def by (rule splitDot_nonempty)
  have conflict: "conflictSeg root1 segs = Some seg"
    using assms(5) unfolding root1_def segs_def .
  have over: "getPath (fst (assignSegs True key root1 segs v)) segs = Some v
      \<and> snd (assignSegs True key root1 segs v) = []"
    using assignSegs_override [OF ne, of True root1 key v] by simp
  have skip: "assignSegs False key root1 segs v = (root1, [skipWarning key seg])"
    using conflict by (rule assignSegs_skip)
  have returns: "\<exists>st'. assignNested_store os st key v cfg_maxNestingDepth cfg_createFlatKeys
                 cfg_createNestedKeys = Inr st'"
    using assms(4) by (rule assignNested_store_plain)
  have "(orElse (overwriteScalarsForNested os) False \<longrightarrow>
        snd (assignNested os root key v cfg_maxNestingDepth cfg_createFlatKeys
               cfg_createNestedKeys w) = w
        \<and> getPath (fst (assignNested os root key v cfg_maxNestingDepth cfg_createFlatKeys
                            cfg_createNestedKeys w)) (splitDot [] key) = Some v)
     \<and> (\<not> orElse (overwriteScalarsForNested os) False \<longrightarrow>
        assignNested os root key v cfg_maxNestingDepth cfg_createFlatKeys cfg_createNestedKeys w
          = ((if cfg_createFlatKeys then setProp root key v else root),
             w @ [skipWarning key seg]))"
    using walk over skip unfolding root1_def [symmetric] segs_def [symmetric]
    by (cases "orElse (overwriteScalarsForNested os) False") simp_all
  with returns show ?thesis by blast
qed

theorem nested_conflict_policy_witness:
  "\<not> list_ex inheritedName (splitDot [] ''user.stats.level'')
   \<and> conflictSeg [(''user'', VStr ''steve'')] (splitDot [] ''user.stats.level'') = Some ''user''
   \<and> getPath (fst (assignNested (noOptions\<lparr>overwriteScalarsForNested := Some True\<rparr>)
                      [(''user'', VStr ''steve'')] ''user.stats.level'' (VStr ''5'') 5 False True []))
         [''user'', ''stats'', ''level''] = Some (VStr ''5'')
   \<and> assignNested noOptions [(''user'', VStr ''steve'')] ''user.stats.level'' (VStr ''5'') 5 False
         True []
       = ([(''user'', VStr ''steve'')], [skipWarning ''user.stats.level'' ''user''])"
proof -
  have sp: "splitDot [] ''user.stats.level'' = [''user'', ''stats'', ''level'']" by code_simp
  have h1: "True" ..
  have h2: "\<not> list_ex (\<lambda>s. length s = 0) (splitDot [] ''user.stats.level'')"
    by (simp add: sp)
  have h3: "int (length (splitDot [] ''user.stats.level'')) \<le> 5" by (simp add: sp)
  have h4: "\<not> list_ex inheritedName (splitDot [] ''user.stats.level'')"
    by (simp add: sp inheritedName_def functionNames_def)
  have h5: "conflictSeg (if False then setProp [(''user'', VStr ''steve'')] ''user.stats.level'' (VStr ''5'')
                         else [(''user'', VStr ''steve'')]) (splitDot [] ''user.stats.level'')
              = Some ''user''"
    by (simp add: sp getProp_def)
  have o1: "orElse (overwriteScalarsForNested (noOptions\<lparr>overwriteScalarsForNested := Some True\<rparr>)) False"
    by (simp add: orElse_def)
  have o2: "\<not> orElse (overwriteScalarsForNested noOptions) False"
    by (simp add: orElse_def noOptions_def)
  from nested_conflict_policy [OF h1 h2 h3 h4 h5, of "noOptions\<lparr>overwriteScalarsForNested := Some True\<rparr>" "[]"] o1
  have a: "getPath (fst (assignNested (noOptions\<lparr>overwriteScalarsForNested := Some True\<rparr>)
                      [(''user'', VStr ''steve'')] ''user.stats.level'' (VStr ''5'') 5 False True []))
         (splitDot [] ''user.stats.level'') = Some (VStr ''5'')"
    by blast
  from nested_conflict_policy [OF h1 h2 h3 h4 h5, of noOptions "[]"] o2
  have b: "assignNested noOptions [(''user'', VStr ''steve'')] ''user.stats.level'' (VStr ''5'') 5 False
         True []
       = ([(''user'', VStr ''steve'')], [skipWarning ''user.stats.level'' ''user''])"
    by simp
  from h5 have c: "conflictSeg [(''user'', VStr ''steve'')] (splitDot [] ''user.stats.level'') = Some ''user''"
    by simp
  from a b c have "conflictSeg [(''user'', VStr ''steve'')] (splitDot [] ''user.stats.level'') = Some ''user''
   \<and> getPath (fst (assignNested (noOptions\<lparr>overwriteScalarsForNested := Some True\<rparr>)
                      [(''user'', VStr ''steve'')] ''user.stats.level'' (VStr ''5'') 5 False True []))
         [''user'', ''stats'', ''level''] = Some (VStr ''5'')
   \<and> assignNested noOptions [(''user'', VStr ''steve'')] ''user.stats.level'' (VStr ''5'') 5 False
         True []
       = ([(''user'', VStr ''steve'')], [skipWarning ''user.stats.level'' ''user''])"
    by (simp only: sp)
  with h4 show ?thesis by blast
qed

section \<open>Where a strict token ends (C7)\<close>

lemma scanToken_split: "scanToken q e s = (tok, rest, q') \<Longrightarrow> s = tok @ rest"
  by (induction q e s arbitrary: tok rest q' rule: scanToken.induct)
     (auto split: if_splits prod.splits)

lemma scanToken_end:
  "scanToken q e s = (tok, rest, q') \<Longrightarrow>
     q' = fst (scanState q e tok)
     \<and> (rest = [] \<or> (hd rest = semicolon \<and> scanState q e tok = (False, False)))"
  by (induction q e s arbitrary: tok rest q' rule: scanToken.induct)
     (auto split: if_splits prod.splits)

lemma scanToken_first:
  "scanToken q e s = (tok, rest, q') \<Longrightarrow> n < length tok \<Longrightarrow>
     \<not> (tok ! n = semicolon \<and> scanState q e (take n tok) = (False, False))"
proof (induction q e s arbitrary: tok rest q' n rule: scanToken.induct)
  case (1 q e)
  then show ?case by simp
next
  case (2 q e ch s)
  show ?case
  proof (cases "\<not> e \<and> ch \<noteq> backslash \<and> ch \<noteq> dquote \<and> ch = semicolon \<and> \<not> q")
    case True
    with 2(5,6) show ?thesis by simp
  next
    case False
    then obtain q1 e1 tok1 where sc: "scanToken q1 e1 s = (tok1, rest, q')"
      and tok: "tok = ch # tok1"
      and st: "\<And>xs. scanState q e (ch # xs) = scanState q1 e1 xs"
      and ih: "\<And>m. m < length tok1 \<Longrightarrow>
                 \<not> (tok1 ! m = semicolon \<and> scanState q1 e1 (take m tok1) = (False, False))"
      using 2 by (auto split: if_splits prod.splits)
    show ?thesis
    proof (cases n)
      case 0
      with False tok show ?thesis by auto
    next
      case (Suc m)
      with 2(6) tok have "m < length tok1" by simp
      from ih [OF this] Suc tok st show ?thesis by simp
    qed
  qed
qed

text \<open>
  C7, as stated, fails: the scanning loop tests \<open>esc\<close> before it looks at the quoting,
  so a backslash escapes the next character outside quotes too. In \<open>a\;b\<close>, which has
  no quote at all, the \<open>;\<close> does not end the token: the strict tokenizer returns the
  one entry named \<open>a\;b\<close>.
\<close>

theorem escaped_semicolon_does_not_end_token:
  "scanToken False False [CHR ''a'', backslash, semicolon, CHR ''b'']
     = ([CHR ''a'', backslash, semicolon, CHR ''b''], [], False)
   \<and> dquote \<notin> set [CHR ''a'', backslash, semicolon, CHR ''b'']
   \<and> fst (parseXMSCore DEFAULT_OPTIONS [CHR ''a'', backslash, semicolon, CHR ''b'']
            \<lparr>state_warnings = [], state_errors = []\<rparr>)
       = Inr [\<lparr>name = [CHR ''a'', backslash, semicolon, CHR ''b''], value = None\<rparr>]"
  by code_simp

text \<open>
  C7, amended. In the strict tokenizer a backslash escapes the character after it
  inside and outside quotes, and a \<open>"\<close> that is not escaped toggles quoting. The token
  scanned from an input is the part before the first \<open>;\<close> that is met outside quotes
  and not escaped, or the whole input if there is none; the loop ends with
  \<open>inQuote\<close> as the token leaves it.
\<close>

theorem token_ends_at_first_free_semicolon:
  assumes "scanToken False False s = (tok, rest, inQuote)"
  shows "s = tok @ rest
    \<and> inQuote = fst (scanState False False tok)
    \<and> (rest = [] \<or> (hd rest = semicolon \<and> scanState False False tok = (False, False)))
    \<and> (\<forall>n < length tok.
          \<not> (tok ! n = semicolon \<and> scanState False False (take n tok) = (False, False)))
    \<and> scanState q False [dquote] = (\<not> q, False)
    \<and> scanState q False (backslash # c # cs) = scanState q False cs"
  using scanToken_split [OF assms] scanToken_end [OF assms] scanToken_first [OF assms]
  by simp

theorem token_ends_at_first_free_semicolon_witness:
  "scanToken False False [CHR ''a'', backslash, semicolon, CHR ''b'', semicolon, CHR ''c'']
     = ([CHR ''a'', backslash, semicolon, CHR ''b''], [semicolon, CHR ''c''], False)
   \<and> scanState False False [CHR ''a'', backslash, semicolon, CHR ''b''] = (False, False)
   \<and> scanState False False (take 2 [CHR ''a'', backslash, semicolon, CHR ''b'']) \<noteq> (False, False)"
proof -
  have h: "scanToken False False [CHR ''a'', backslash, semicolon, CHR ''b'', semicolon, CHR ''c'']
     = ([CHR ''a'', backslash, semicolon, CHR ''b''], [semicolon, CHR ''c''], False)"
    by code_simp
  note th = token_ends_at_first_free_semicolon [OF h]
  from th have a: "scanState False False [CHR ''a'', backslash, semicolon, CHR ''b''] = (False, False)"
    by simp
  from th have "\<forall>n < length [CHR ''a'', backslash, semicolon, CHR ''b''].
      \<not> ([CHR ''a'', backslash, semicolon, CHR ''b''] ! n = semicolon
         \<and> scanState False False (take n [CHR ''a'', backslash, semicolon, CHR ''b'']) = (False, False))"
    by blast
  then have "\<not> ([CHR ''a'', backslash, semicolon, CHR ''b''] ! 2 = semicolon
         \<and> scanState False False (take 2 [CHR ''a'', backslash, semicolon, CHR ''b'']) = (False, False))"
    by simp
  then have b: "scanState False False (take 2 [CHR ''a'', backslash, semicolon, CHR ''b'']) \<noteq> (False, False)"
    by simp
  from h a b show ?thesis by blast
qed

section \<open>Serializing and parsing again (C5)\<close>

subsection \<open>Characters of keys and of unquoted values\<close>

lemma keyChar_plain:
  assumes "keyChar c"
  shows "c \<noteq> semicolon" "c \<noteq> dquote" "c \<noteq> backslash" "c \<noteq> equals" "\<not> isSpace c"
    "toLowerChar c = c"
  using assms by (auto simp: keyChar_def isDigit_def isSpace_def toLowerChar_def Let_def)

lemma KEY_PATTERN_chars:
  assumes "KEY_PATTERN key"
  shows "key \<noteq> []" "\<And>c. c \<in> set key \<Longrightarrow> keyChar c"
  using assms by (auto simp: KEY_PATTERN_def list_all_iff)

lemma toLowerCase_key: "KEY_PATTERN key \<Longrightarrow> toLowerCase key = key"
  using KEY_PATTERN_chars(2) keyChar_plain(6) by (simp add: toLowerCase_def map_idI)

lemma trim_no_space: "\<forall>c \<in> set s. \<not> isSpace c \<Longrightarrow> trim s = s"
proof (cases "s = []")
  case True
  then show ?thesis by simp
next
  case False
  assume "\<forall>c \<in> set s. \<not> isSpace c"
  with False have "\<not> isSpace (hd s)" "\<not> isSpace (last s)" by simp_all
  with False show ?thesis by (rule trim_id)
qed

lemma trim_key: "KEY_PATTERN key \<Longrightarrow> trim key = key"
  using KEY_PATTERN_chars(2) keyChar_plain(5) by (intro trim_no_space) blast

subsection \<open>The scanning loops on plain and on escaped text\<close>

lemma scanToken_plain:
  assumes "\<forall>c \<in> set a. c \<noteq> semicolon \<and> c \<noteq> dquote \<and> c \<noteq> backslash"
    and "scanToken False False r = (tok, rest, q)"
  shows "scanToken False False (a @ r) = (a @ tok, rest, q)"
  using assms by (induction a) auto

lemma scanToken_escaped:
  assumes "scanToken True False r = (tok, rest, q)"
  shows "scanToken True False (escapeChars v @ r) = (escapeChars v @ tok, rest, q)"
  using assms by (induction v) auto

lemma findEq_plain:
  assumes "\<forall>c \<in> set a. c \<noteq> equals \<and> c \<noteq> dquote \<and> c \<noteq> backslash"
  shows "findEq False False k (a @ r) = findEq False False (k + length a) r"
  using assms by (induction a arbitrary: k) auto

lemma unescape_escapeChars: "unescape False out (escapeChars v @ r) = unescape False (out @ v) r"
  by (induction v arbitrary: out) auto

subsection \<open>One serialized token\<close>

lemma toXMS_token_cases:
  assumes "toXMS_token e = Some tok" "value e \<noteq> Some []"
  obtains (bare) "KEY_PATTERN (name e)" "value e = None" "tok = name e"
  | (unquoted) v where "KEY_PATTERN (name e)" "value e = Some v" "v \<noteq> []"
      "\<not> needsQuotes v" "tok = name e @ equals # v"
  | (quoted) v where "KEY_PATTERN (name e)" "value e = Some v" "needsQuotes v"
      "tok = name e @ equals # dquote # escapeChars v @ [dquote]"
  using assms
  by (auto simp: toXMS_token_def Let_def split: if_splits option.splits)

lemma no_quotes_plain:
  assumes "\<not> needsQuotes v" "c \<in> set v"
  shows "c \<noteq> semicolon" "c \<noteq> dquote" "c \<noteq> backslash" "c \<noteq> equals" "\<not> isSpace c"
  using assms by (auto simp: needsQuotes_def list_ex_iff)

lemma key_plain_all:
  "KEY_PATTERN key \<Longrightarrow>
     \<forall>c \<in> set key. c \<noteq> semicolon \<and> c \<noteq> dquote \<and> c \<noteq> backslash \<and> c \<noteq> equals \<and> \<not> isSpace c"
  using KEY_PATTERN_chars(2) keyChar_plain by blast

lemma value_plain_all:
  "\<not> needsQuotes v \<Longrightarrow>
     \<forall>c \<in> set v. c \<noteq> semicolon \<and> c \<noteq> dquote \<and> c \<noteq> backslash \<and> c \<noteq> equals \<and> \<not> isSpace c"
  by (auto simp: needsQuotes_def list_ex_iff)

lemma scanToken_stop:
  "rest = [] \<or> hd rest = semicolon \<Longrightarrow> scanToken False False rest = ([], rest, False)"
  by (cases rest) auto

lemma token_scan:
  assumes "toXMS_token e = Some tok" "value e \<noteq> Some []" "rest = [] \<or> hd rest = semicolon"
  shows "scanToken False False (tok @ rest) = (tok, rest, False)"
  using assms(1,2)
proof (cases rule: toXMS_token_cases)
  case bare
  have "\<forall>c \<in> set tok. c \<noteq> semicolon \<and> c \<noteq> dquote \<and> c \<noteq> backslash"
    using bare(3) KEY_PATTERN_chars(2) [OF bare(1)] keyChar_plain by blast
  from scanToken_plain [OF this scanToken_stop [OF assms(3)]] show ?thesis by simp
next
  case (unquoted v)
  have "\<forall>c \<in> set tok. c \<noteq> semicolon \<and> c \<noteq> dquote \<and> c \<noteq> backslash"
    using unquoted(5) key_plain_all [OF unquoted(1)] value_plain_all [OF unquoted(4)] by auto
  from scanToken_plain [OF this scanToken_stop [OF assms(3)]] show ?thesis by simp
next
  case (quoted v)
  let ?a = "name e @ [equals]"
  have plain: "\<forall>c \<in> set ?a. c \<noteq> semicolon \<and> c \<noteq> dquote \<and> c \<noteq> backslash"
    using KEY_PATTERN_chars(2) [OF quoted(1)] keyChar_plain by auto
  have close: "scanToken True False (dquote # rest) = ([dquote], rest, False)"
    using scanToken_stop [OF assms(3)] by simp
  have inner: "scanToken True False (escapeChars v @ dquote # rest)
      = (escapeChars v @ [dquote], rest, False)"
    using scanToken_escaped [OF close, of v] by simp
  have "scanToken False False (dquote # escapeChars v @ dquote # rest)
      = (dquote # escapeChars v @ [dquote], rest, False)"
    using inner by simp
  from scanToken_plain [OF plain this] quoted(4) show ?thesis by simp
qed

lemma token_shape:
  assumes "toXMS_token e = Some tok" "value e \<noteq> Some []"
  shows "tok \<noteq> []" "hd tok \<noteq> semicolon" "trim tok = tok"
proof -
  have key: "KEY_PATTERN (name e)" using assms by (cases rule: toXMS_token_cases)
  note kc = KEY_PATTERN_chars [OF key]
  have hdk: "keyChar (hd (name e))" using kc by simp
  have tk: "tok \<noteq> [] \<and> hd tok = hd (name e)"
    using assms kc(1) by (cases rule: toXMS_token_cases) auto
  then show "tok \<noteq> []" by simp
  show "hd tok \<noteq> semicolon" using tk hdk keyChar_plain(1) by simp
  have "\<not> isSpace (last tok)"
    using assms
  proof (cases rule: toXMS_token_cases)
    case bare
    then show ?thesis using kc keyChar_plain(5) by simp
  next
    case (unquoted v)
    then show ?thesis using no_quotes_plain(5) [OF unquoted(4), of "last v"] by simp
  next
    case (quoted v)
    then show ?thesis by (simp add: isSpace_def)
  qed
  moreover have "\<not> isSpace (hd tok)" using tk hdk keyChar_plain(5) by simp
  ultimately show "trim tok = tok" using tk trim_id by blast
qed

lemma finalValue_quoted:
  "finalValue (Some (dquote # escapeChars v @ [dquote])) = Inr (Some v)"
proof -
  have "unescape False [] (escapeChars v @ []) = unescape False ([] @ v) []"
    by (rule unescape_escapeChars)
  then have "unescape False [] (escapeChars v) = (v, False)" by simp
  then show ?thesis by (simp add: finalValue_def butlast_append)
qed

lemma token_parse:
  assumes "toXMS_token e = Some tok" "value e \<noteq> Some []"
  shows "parseXMSCore_token os tok st = (Inr (Some \<lparr>name = name e, value = value e\<rparr>), st)"
  using assms
proof (cases rule: toXMS_token_cases)
  case bare
  have "equals \<notin> set tok"
    using bare(3) KEY_PATTERN_chars(2) [OF bare(1)] keyChar_plain(4) by blast
  then have "findEq False False 0 tok = None" by (rule findEq_no_equals)
  then show ?thesis
    using bare by (simp add: parseXMSCore_token_def finalValue_def toLowerCase_key Let_def)
next
  case (unquoted v)
  have plain: "\<forall>c \<in> set (name e). c \<noteq> equals \<and> c \<noteq> dquote \<and> c \<noteq> backslash"
    using KEY_PATTERN_chars(2) [OF unquoted(1)] keyChar_plain by blast
  have eq: "findEq False False 0 tok = Some (length (name e))"
    using findEq_plain [OF plain, of 0 "equals # v"] unquoted(5) by simp
  have tv: "trim v = v" using no_quotes_plain(5) [OF unquoted(4)] by (intro trim_no_space) blast
  have "hd v \<noteq> dquote" using no_quotes_plain(2) [OF unquoted(4), of "hd v"] unquoted(3) by simp
  then have "take 1 v \<noteq> [dquote]" using unquoted(3) by (cases v) auto
  then have fv: "finalValue (Some v) = Inr (Some v)" by (simp add: finalValue_def)
  show ?thesis
    using unquoted eq tv fv
    by (simp add: parseXMSCore_token_def trim_key toLowerCase_key Let_def)
next
  case (quoted v)
  have plain: "\<forall>c \<in> set (name e). c \<noteq> equals \<and> c \<noteq> dquote \<and> c \<noteq> backslash"
    using KEY_PATTERN_chars(2) [OF quoted(1)] keyChar_plain by blast
  have eq: "findEq False False 0 tok = Some (length (name e))"
    using findEq_plain [OF plain, of 0 "equals # dquote # escapeChars v @ [dquote]"] quoted(4)
    by simp
  let ?vp = "dquote # escapeChars v @ [dquote]"
  have "\<not> isSpace dquote" by (simp add: isSpace_def)
  then have tv: "trim ?vp = ?vp" using trim_id [of ?vp] by simp
  show ?thesis
    using quoted eq tv finalValue_quoted [of v]
    by (simp add: parseXMSCore_token_def trim_key toLowerCase_key Let_def)
qed

subsection \<open>The strict tokenizer on the serialized tokens\<close>

lemma parseXMSCore_loop_skip:
  "parseXMSCore_loop os (semicolon # body) out st = parseXMSCore_loop os body out st"
  by (subst parseXMSCore_loop.simps, subst (2) parseXMSCore_loop.simps) simp

lemma joinSemicolon_Cons:
  "joinSemicolon (t # ts) = t @ (if ts = [] then [] else semicolon # joinSemicolon ts)"
  by (cases ts) simp_all

lemma reparse_tokens:
  assumes "list_all2 (\<lambda>e tok. toXMS_token e = Some tok \<and> value e \<noteq> Some []) es toks"
  shows "parseXMSCore_loop os (joinSemicolon toks) out st = (Inr (out @ es), st)"
  using assms
proof (induction arbitrary: out rule: list_all2_induct)
  case Nil
  show ?case using parseXMSCore_loop_done [of "[]" os out st] by simp
next
  case (Cons e es tok toks)
  define rest where "rest = (if toks = [] then [] else semicolon # joinSemicolon toks)"
  have body: "joinSemicolon (tok # toks) = tok @ rest"
    unfolding rest_def by (rule joinSemicolon_Cons)
  have tk: "toXMS_token e = Some tok" and nv: "value e \<noteq> Some []" using Cons(1) by simp_all
  note shape = token_shape [OF tk nv]
  have stop: "rest = [] \<or> hd rest = semicolon" unfolding rest_def by simp
  have dw: "dropWhile (\<lambda>c. c = semicolon) (tok @ rest) = tok @ rest"
    using shape(1,2) by (cases tok) auto
  have e: "\<lparr>name = name e, value = value e\<rparr> = e" by simp
  have step: "parseXMSCore_step os (tok @ rest) st = (Inr (skipSemicolon rest, [e]), st)"
    using token_scan [OF tk nv stop] shape(1,3) token_parse [OF tk nv, of os st] e
    by (simp add: parseXMSCore_step_def Let_def)
  have sk: "skipSemicolon rest = joinSemicolon toks" unfolding rest_def by simp
  have ne: "dropWhile (\<lambda>c. c = semicolon) (tok @ rest) \<noteq> []" using dw shape(1) by simp
  have step': "parseXMSCore_step os (dropWhile (\<lambda>c. c = semicolon) (tok @ rest)) st
      = (Inr (skipSemicolon rest, [e]), st)"
    using step by (simp only: dw)
  have "parseXMSCore_loop os (tok @ rest) out st
      = parseXMSCore_loop os (skipSemicolon rest) (out @ [e]) st"
    using ne step' by (rule parseXMSCore_loop_next)
  also have "\<dots> = (Inr ((out @ [e]) @ es), st)" unfolding sk by (rule Cons.IH)
  finally show ?case unfolding body by simp
qed

lemma map_filter_tokens:
  assumes "\<forall>e \<in> set es. KEY_PATTERN (name e) \<and> value e \<noteq> Some []"
  shows "list_all2 (\<lambda>e tok. toXMS_token e = Some tok \<and> value e \<noteq> Some [])
           es (List.map_filter toXMS_token es)"
  using assms
proof (induction es)
  case Nil
  show ?case by (simp add: List.map_filter_simps)
next
  case (Cons e es)
  then have "KEY_PATTERN (name e)" by simp
  then have "toXMS_token e \<noteq> None"
    by (simp add: toXMS_token_def Let_def split: option.splits)
  then obtain tok where "toXMS_token e = Some tok" by auto
  with Cons show ?case by (simp add: List.map_filter_simps)
qed

subsection \<open>The version number\<close>

lemma showNat_digits: "showNat n \<noteq> [] \<and> list_all isDigit (showNat n)"
proof (induction n rule: showNat.induct)
  case (1 n)
  show ?case
  proof (cases "n < 10")
    case True
    then show ?thesis by (subst (1 2) showNat.simps) (simp add: isDigit_def)
  next
    case False
    have "n mod 10 < 10" by simp
    then have "isDigit (char_of (48 + n mod 10))" by (simp add: isDigit_def)
    with False 1 show ?thesis by (subst (1 2) showNat.simps) simp
  qed
qed

lemma parseInt_snoc: "parseInt (ds @ [c]) = 10 * parseInt ds + ((of_char c :: nat) - 48)"
  by (simp add: parseInt_def)

lemma parseInt_showNat: "parseInt (showNat n) = n"
proof (induction n rule: showNat.induct)
  case (1 n)
  show ?case
  proof (cases "n < 10")
    case True
    then show ?thesis by (subst showNat.simps) (simp add: parseInt_def)
  next
    case False
    have "n mod 10 < 10" by simp
    then have "(of_char (char_of (48 + n mod 10)) :: nat) - 48 = n mod 10" by simp
    with False 1 show ?thesis by (subst showNat.simps) (simp add: parseInt_snoc)
  qed
qed

lemma xmsPrefix_serialized:
  "xmsPrefix (''xms/'' @ showNat n @ semicolon # body) = Some (showNat n, semicolon # body)"
proof -
  have d: "\<And>c. c \<in> set (showNat n) \<Longrightarrow> isDigit c"
    using showNat_digits [of n] by (simp add: list_all_iff)
  have ns: "\<not> isDigit semicolon" by (simp add: isDigit_def)
  have "takeWhile isDigit (showNat n @ semicolon # body) = showNat n"
    using d ns by (simp add: takeWhile_append2)
  moreover have "dropWhile isDigit (showNat n @ semicolon # body) = semicolon # body"
    using d ns by (simp add: dropWhile_append2)
  ultimately show ?thesis using showNat_digits [of n] by (simp add: xmsPrefix_def)
qed

subsection \<open>Ingesting entries that are already cut to their limits\<close>

lemma ingest_entries_limit: "fst (ingest os es dat w) = map (limitEntry os) es"
  using ingest_entries [of os es dat w] unfolding limitEntry_def [abs_def] .

lemma enforceLength_idem:
  "fst (enforceLength key (fst (enforceLength key v [])) []) = fst (enforceLength key v [])"
  by (auto simp: enforceLength_def Let_def)

lemma limitEntry_idem: "limitEntry os (limitEntry os e) = limitEntry os e"
  by (cases "value e") (simp_all add: limitEntry_def enforceLength_idem)

lemma assignNested_data_indep:
  "fst (assignNested os root key v d f n w) = fst (assignNested os root key v d f n [])"
  by (simp add: assignNested_def Let_def split: prod.splits)

lemma ingestEntry_data:
  "fst (snd (ingestEntry os e dat w)) =
     fst (assignNested os dat (name e) (coerceValue os (value (limitEntry os e)))
            (orElse (maxNestingDepth os) (orElse (maxNestingDepth DEFAULT_OPTIONS) 5))
            (orElse (createFlatKeys os) True) (orElse (createNestedKeys os) True) [])"
proof (cases "value e")
  case None
  then show ?thesis
    using assignNested_data_indep [of os dat "name e" _ _ _ _ w]
    by (simp add: ingestEntry_def limitEntry_def Let_def split: prod.splits)
next
  case (Some v)
  show ?thesis
  proof (cases "orElse (enforceLimits os) True")
    case True
    obtain v' w' where el: "enforceLength (name e) v w = (v', w')"
      by (cases "enforceLength (name e) v w") auto
    then have "v' = fst (enforceLength (name e) v [])"
      using enforceLength_value_indep [of "name e" v w] by simp
    then show ?thesis
      using Some True el assignNested_data_indep [of os dat "name e" _ _ _ _ w']
      by (simp add: ingestEntry_def limitEntry_def Let_def split: prod.splits)
  next
    case False
    then show ?thesis
      using Some assignNested_data_indep [of os dat "name e" _ _ _ _ w]
      by (simp add: ingestEntry_def limitEntry_def Let_def split: prod.splits)
  qed
qed

lemma ingest_data_limit:
  "fst (snd (ingest os (map (limitEntry os) es) dat w')) = fst (snd (ingest os es dat w))"
proof (induction es arbitrary: dat w w')
  case Nil
  show ?case by simp
next
  case (Cons e es)
  obtain e1 dat1 w1 where a: "ingestEntry os e dat w = (e1, dat1, w1)"
    by (cases "ingestEntry os e dat w") auto
  obtain e2 dat2 w2 where b: "ingestEntry os (limitEntry os e) dat w' = (e2, dat2, w2)"
    by (cases "ingestEntry os (limitEntry os e) dat w'") auto
  have "dat2 = dat1"
    using ingestEntry_data [of os e dat w] ingestEntry_data [of os "limitEntry os e" dat w'] a b
    by (simp add: limitEntry_idem)
  then show ?case
    using a b Cons.IH [of dat1 w2 w1] by (auto split: prod.splits)
qed

subsection \<open>The round trip\<close>

lemma parse_not_fallback:
  assumes "\<not> isFallback (parse this)"
  obtains ds body es st where "xmsPrefix (input this) = Some (ds, body)"
    and "parseXMSCore (opts this) body \<lparr>state_warnings = [], state_errors = []\<rparr> = (Inr es, st)"
proof (cases "xmsPrefix (input this)")
  case None
  obtain es st where
    "parseCommonMeta (opts this) (input this) \<lparr>state_warnings = [], state_errors = []\<rparr> = (es, st)"
    by (cases "parseCommonMeta (opts this) (input this) \<lparr>state_warnings = [], state_errors = []\<rparr>") auto
  from parse_legacy(2) [OF None this] assms show ?thesis by simp
next
  case (Some p)
  obtain ds body where p: "p = (ds, body)" by (cases p) auto
  obtain r st where
    r: "parseXMSCore (opts this) body \<lparr>state_warnings = [], state_errors = []\<rparr> = (r, st)"
    by (cases "parseXMSCore (opts this) body \<lparr>state_warnings = [], state_errors = []\<rparr>") auto
  show ?thesis
  proof (cases r)
    case (Inl err)
    from parse_fallback(2) [OF Some [unfolded p] r [unfolded Inl]] assms show ?thesis by simp
  next
    case (Inr es)
    from Some [unfolded p] r [unfolded Inr] show ?thesis by (rule that)
  qed
qed

lemma toXMS_versioned:
  assumes "version d \<noteq> 0"
  shows "toXMS d = ''xms/'' @ showNat (version d) @ semicolon
           # joinSemicolon (List.map_filter toXMS_token (entries d))"
  using assms by (cases "List.map_filter toXMS_token (entries d)") (simp_all add: toXMS_def Let_def)

text \<open>
  C5, as stated, fails on two kinds of well-formed strict input. A quoted empty value
  is read as the empty string, serialized as \<open>key=\<close>, and read again as \<open>null\<close>. And
  an input with version 0 is serialized with no prefix, so it is read again by the
  legacy tokenizer, for which a bare token has the value \<open>""\<close> and not \<open>null\<close>.
\<close>

theorem roundtrip_changes_values:
  "entries (parseString (''xms/1;quoted='' @ [dquote, dquote]) noOptions)
     = [\<lparr>name = ''quoted'', value = Some []\<rparr>]
   \<and> toXMS (parseString (''xms/1;quoted='' @ [dquote, dquote]) noOptions) = ''xms/1;quoted=''
   \<and> entries (parseString (toXMS (parseString (''xms/1;quoted='' @ [dquote, dquote]) noOptions))
        noOptions)
     = [\<lparr>name = ''quoted'', value = None\<rparr>]
   \<and> entries (parseString ''xms/0;flag'' noOptions) = [\<lparr>name = ''flag'', value = None\<rparr>]
   \<and> isFallback (parseString ''xms/0;flag'' noOptions) = False
   \<and> toXMS (parseString ''xms/0;flag'' noOptions) = ''flag''
   \<and> entries (parseString (toXMS (parseString ''xms/0;flag'' noOptions)) noOptions)
     = [\<lparr>name = ''flag'', value = Some []\<rparr>]"
proof (intro conjI)
  show "entries (parseString (''xms/1;quoted='' @ [dquote, dquote]) noOptions)
     = [\<lparr>name = ''quoted'', value = Some []\<rparr>]" by code_simp
  show "toXMS (parseString (''xms/1;quoted='' @ [dquote, dquote]) noOptions) = ''xms/1;quoted=''"
    by code_simp
  show "entries (parseString (toXMS (parseString (''xms/1;quoted='' @ [dquote, dquote]) noOptions))
        noOptions)
     = [\<lparr>name = ''quoted'', value = None\<rparr>]" by code_simp
  show "entries (parseString ''xms/0;flag'' noOptions) = [\<lparr>name = ''flag'', value = None\<rparr>]"
    by code_simp
  show "isFallback (parseString ''xms/0;flag'' noOptions) = False" by code_simp
  show "toXMS (parseString ''xms/0;flag'' noOptions) = ''flag''" by code_simp
  show "entries (parseString (toXMS (parseString ''xms/0;flag'' noOptions)) noOptions)
     = [\<lparr>name = ''flag'', value = Some []\<rparr>]" by code_simp
qed

text \<open>
  C5, amended. Let \<open>s\<close> be an input that \<open>parse\<close> reads with the strict tokenizer
  without failure, with a version other than 0 and at most \<open>2^53\<close> (up to there a
  number holds the digits exactly and is written with all its digits), whose entries
  all have keys that match the key pattern, with no segment that is the name of a
  property inherited from \<open>Object.prototype\<close> (such as \<open>__proto__\<close> or
  \<open>constructor\<close>), and none of which has the empty string as its value. Then parsing
  the serializer's output of that document, with the same options, gives the same
  version, no fallback, no error, the same entry log and the same value tree; and
  both calls of \<open>XMSDoc.parse\<close> return their document: neither raises an exception.
\<close>

theorem roundtrip_entries:
  assumes "\<not> isFallback (parseString s os)"
    and "version (parseString s os) \<noteq> 0"
    and "version (parseString s os) \<le> 2 ^ 53"
    and "\<forall>e \<in> set (entries (parseString s os)).
           KEY_PATTERN (name e) \<and> value e \<noteq> Some []
           \<and> \<not> list_ex inheritedName (splitDot [] (name e))"
  shows "version (parseString (toXMS (parseString s os)) os) = version (parseString s os)
    \<and> \<not> isFallback (parseString (toXMS (parseString s os)) os)
    \<and> errors (parseString (toXMS (parseString s os)) os) = []
    \<and> entries (parseString (toXMS (parseString s os)) os) = entries (parseString s os)
    \<and> data (parseString (toXMS (parseString s os)) os) = data (parseString s os)
    \<and> XMSDoc_parse (JString s) os = Inr (parseString s os)
    \<and> XMSDoc_parse (JString (toXMS (parseString s os))) os
        = Inr (parseString (toXMS (parseString s os)) os)"
proof -
  define os' where "os' = spread DEFAULT_OPTIONS (os\<lparr>defer := Some False\<rparr>)"
  define d where "d = parseString s os"
  have d: "d = parse (initialDoc s os')" unfolding d_def os'_def parseString_def ..
  from assms(1) [folded d_def, unfolded d] obtain ds body es0 st1 where
    p: "xmsPrefix (input (initialDoc s os')) = Some (ds, body)" and
    t: "parseXMSCore (opts (initialDoc s os')) body \<lparr>state_warnings = [], state_errors = []\<rparr>
          = (Inr es0, st1)"
    by (rule parse_not_fallback)
  have en: "entries d = map (limitEntry os') es0"
    using parse_strict(4) [OF p t] unfolding d by (simp add: ingest_entries_limit)
  have da: "data d = fst (snd (ingest os' es0 [] (state_warnings st1)))"
    using parse_strict(5) [OF p t] unfolding d by simp
  define toks where "toks = List.map_filter toXMS_token (entries d)"
  have ser: "toXMS d = ''xms/'' @ showNat (version d) @ semicolon # joinSemicolon toks"
    unfolding toks_def using assms(2) [folded d_def] by (rule toXMS_versioned)
  have "list_all2 (\<lambda>e tok. toXMS_token e = Some tok \<and> value e \<noteq> Some []) (entries d) toks"
    unfolding toks_def using assms(4) [folded d_def] by (intro map_filter_tokens) blast
  from reparse_tokens [OF this, of os' "[]" "\<lparr>state_warnings = [], state_errors = []\<rparr>"]
  have t2: "parseXMSCore (opts (initialDoc (toXMS d) os')) (semicolon # joinSemicolon toks)
              \<lparr>state_warnings = [], state_errors = []\<rparr>
            = (Inr (entries d), \<lparr>state_warnings = [], state_errors = []\<rparr>)"
    by (simp add: parseXMSCore_def parseXMSCore_loop_skip)
  have p2: "xmsPrefix (input (initialDoc (toXMS d) os'))
              = Some (showNat (version d), semicolon # joinSemicolon toks)"
    using xmsPrefix_serialized [of "version d" "joinSemicolon toks"] by (simp add: ser)
  define d2 where "d2 = parse (initialDoc (toXMS d) os')"
  have d2: "parseString (toXMS d) os = d2"
    unfolding d2_def os'_def parseString_def ..
  have v2: "version d2 = version d"
    using parse_strict(1) [OF p2 t2] unfolding d2_def by (simp add: parseInt_showNat)
  have f2: "\<not> isFallback d2" using parse_strict(2) [OF p2 t2] unfolding d2_def .
  have r2: "errors d2 = []" using parse_strict(3) [OF p2 t2] unfolding d2_def .
  have "entries d2 = map (limitEntry os') (entries d)"
    using parse_strict(4) [OF p2 t2] unfolding d2_def by (simp add: ingest_entries_limit)
  then have e2: "entries d2 = entries d" by (simp add: en limitEntry_idem)
  have "data d2 = fst (snd (ingest os' (map (limitEntry os') es0) [] []))"
    using parse_strict(5) [OF p2 t2] unfolding d2_def by (simp add: en)
  then have a2: "data d2 = data d"
    using ingest_data_limit [of os' es0 "[]" "[]" "state_warnings st1"] da by simp
  have plain: "\<forall>e \<in> set (entries d). \<not> list_ex inheritedName (splitDot [] (name e))"
    using assms(4) [folded d_def] by blast
  have ret1: "XMSDoc_parse (JString s) os = Inr d"
    using plain unfolding d_def by (rule XMSDoc_parse_plain)
  have "\<forall>e \<in> set (entries (parseString (toXMS d) os)).
          \<not> list_ex inheritedName (splitDot [] (name e))"
    using plain by (simp add: d2 e2)
  then have ret2: "XMSDoc_parse (JString (toXMS d)) os = Inr d2"
    unfolding d2 [symmetric] by (rule XMSDoc_parse_plain)
  show ?thesis unfolding d_def [symmetric] d2 using v2 f2 r2 e2 a2 ret1 ret2 by simp
qed

theorem roundtrip_entries_witness:
  "\<not> isFallback (parseString ''xms/1;msg=hello world;flag;a.b=1'' noOptions)
   \<and> version (parseString ''xms/1;msg=hello world;flag;a.b=1'' noOptions) = 1
   \<and> entries (parseString ''xms/1;msg=hello world;flag;a.b=1'' noOptions)
       = [\<lparr>name = ''msg'', value = Some ''hello world''\<rparr>, \<lparr>name = ''flag'', value = None\<rparr>,
          \<lparr>name = ''a.b'', value = Some ''1''\<rparr>]
   \<and> toXMS (parseString ''xms/1;msg=hello world;flag;a.b=1'' noOptions)
       = ''xms/1;msg='' @ [dquote] @ ''hello world'' @ [dquote] @ '';flag;a.b=1''
   \<and> entries (parseString (toXMS (parseString ''xms/1;msg=hello world;flag;a.b=1'' noOptions))
                  noOptions)
       = entries (parseString ''xms/1;msg=hello world;flag;a.b=1'' noOptions)
   \<and> data (parseString (toXMS (parseString ''xms/1;msg=hello world;flag;a.b=1'' noOptions))
               noOptions)
       = data (parseString ''xms/1;msg=hello world;flag;a.b=1'' noOptions)"
proof -
  let ?d = "parseString ''xms/1;msg=hello world;flag;a.b=1'' noOptions"
  have h1: "\<not> isFallback ?d" by code_simp
  have v: "version ?d = 1" by code_simp
  have h2: "version ?d \<noteq> 0" by (simp add: v)
  have h3: "version ?d \<le> 2 ^ 53" by (simp add: v)
  have en: "entries ?d
       = [\<lparr>name = ''msg'', value = Some ''hello world''\<rparr>, \<lparr>name = ''flag'', value = None\<rparr>,
          \<lparr>name = ''a.b'', value = Some ''1''\<rparr>]" by code_simp
  have sp: "splitDot [] ''msg'' = [''msg'']" "splitDot [] ''flag'' = [''flag'']"
    "splitDot [] ''a.b'' = [''a'', ''b'']" by code_simp+
  have h4: "\<forall>e \<in> set (entries ?d).
      KEY_PATTERN (name e) \<and> value e \<noteq> Some []
      \<and> \<not> list_ex inheritedName (splitDot [] (name e))"
    unfolding en
    by (simp add: KEY_PATTERN_def keyChar_def isDigit_def sp inheritedName_def functionNames_def)
  have ser: "toXMS ?d = ''xms/1;msg='' @ [dquote] @ ''hello world'' @ [dquote] @ '';flag;a.b=1''"
    by code_simp
  note th = roundtrip_entries [OF h1 h2 h3 h4]
  from th have rt: "entries (parseString (toXMS ?d) noOptions) = entries ?d" by blast
  from th have rd: "data (parseString (toXMS ?d) noOptions) = data ?d" by blast
  from h1 v en ser rt rd show ?thesis by blast
qed

end
